theory Spec2Isabelle
  imports Main
begin

section \<open>Bytes, C strings and the libc functions the programs call\<close>

text \<open>
  A C \<open>char\<close> is a byte, modelled by HOL's \<open>char\<close>. An array or the memory behind a
  \<open>const char *\<close> is a list of bytes: the object from the pointer to its end. A read
  past the end of the object is undefined behaviour in C; the model returns \<open>None\<close>
  there, so that a function returning \<open>Some\<close> has stayed inside the object.
\<close>

definition NUL :: char where
  "NUL = CHR 0x00"

definition LF :: char where
  "LF = CHR 0x0A"

definition load :: "string \<Rightarrow> nat \<Rightarrow> char option" where
  "load a i = (if i < length a then Some (a ! i) else None)"

definition store :: "string \<Rightarrow> nat \<Rightarrow> char \<Rightarrow> string option" where
  "store a i c = (if i < length a then Some (a[i := c]) else None)"

text \<open>
  The same accesses with an index of a signed type (\<open>ssize_t\<close>): a negative index is
  outside the array as well.
\<close>

definition load_at :: "string \<Rightarrow> int \<Rightarrow> char option" where
  "load_at a i = (if 0 \<le> i \<and> i < int (length a) then Some (a ! nat i) else None)"

definition store_at :: "string \<Rightarrow> int \<Rightarrow> char \<Rightarrow> string option" where
  "store_at a i c = (if 0 \<le> i \<and> i < int (length a) then Some (a[nat i := c]) else None)"

text \<open>
  \<open>tolower\<close> of \<open>ctype.h\<close>, in the "C" locale (neither program calls \<open>setlocale\<close>):
  the upper-case letters \<open>'A'\<close> (65) to \<open>'Z'\<close> (90) map to their lower-case letters,
  every other value to itself.
\<close>

definition tolower :: "int \<Rightarrow> int" where
  "tolower c = (if 65 \<le> c \<and> c \<le> 90 then c + 32 else c)"

text \<open>
  \<open>strcmp\<close> of \<open>string.h\<close>: the difference of the first two bytes that differ (as
  \<open>unsigned char\<close>), 0 when both strings end together.
\<close>

fun strcmp :: "string \<Rightarrow> string \<Rightarrow> int option" where
  "strcmp (a # as) (b # bs) =
     (if a \<noteq> b then Some (of_char a - of_char b)
      else if a = NUL then Some 0
      else strcmp as bs)"
| "strcmp _ _ = None"

text \<open>\<open>strlen\<close>: the number of bytes before the first NUL.\<close>

fun strlen :: "string \<Rightarrow> nat option" where
  "strlen [] = None"
| "strlen (c # cs) = (if c = NUL then Some 0 else map_option Suc (strlen cs))"

text \<open>The bytes of a string literal, with its terminating NUL.\<close>

definition lit :: "string \<Rightarrow> string" where
  "lit s = s @ [NUL]"

text \<open>The string a \<open>%s\<close> conversion prints: the bytes before the first NUL.\<close>

definition cstr :: "string \<Rightarrow> string" where
  "cstr a = takeWhile (\<lambda>c. c \<noteq> NUL) a"

section \<open>Framing/Command Layer: \<open>is_quit_cmd\<close>\<close>

subsection \<open>server.c\<close>

text \<open>\<open>while (*s == ' ' || *s == '\t' || *s == '\r' || *s == '\n') s++;\<close>\<close>

fun skip_ws :: "string \<Rightarrow> string option" where
  "skip_ws [] = None"
| "skip_ws (c # cs) =
     (if c = CHR '' '' \<or> c = CHR 0x09 \<or> c = CHR 0x0D \<or> c = CHR 0x0A
      then skip_ws cs else Some (c # cs))"

text \<open>
  The copy loop of the server: \<open>sizeof(tmp) - 1\<close> is 7, the conjunction is evaluated
  left to right, so \<open>s[i]\<close> is read only when \<open>i < 7\<close>.
\<close>

function copy_token :: "string \<Rightarrow> nat \<Rightarrow> string \<Rightarrow> (nat \<times> string) option" where
  "copy_token s i tmp =
     (if i < 7 then
        (case load s i of
           None \<Rightarrow> None
         | Some c \<Rightarrow>
             if c \<noteq> NUL \<and> c \<noteq> CHR '' '' \<and> c \<noteq> CHR 0x09 \<and> c \<noteq> CHR 0x0D \<and> c \<noteq> CHR 0x0A
             then (case store tmp i (char_of (tolower (of_char c))) of
                     None \<Rightarrow> None
                   | Some tmp' \<Rightarrow> copy_token s (i + 1) tmp')
             else Some (i, tmp))
      else Some (i, tmp))"
  by pat_completeness auto
termination
  by (relation "measure (\<lambda>(s, i, tmp). 7 - i)") auto

text \<open>
  \<open>is_quit_cmd\<close> of server.c. \<open>tmp0\<close> is what the stack holds where \<open>char tmp[8]\<close> is
  allocated: the array is not initialised.
\<close>

definition is_quit_cmd_on :: "string \<Rightarrow> string \<Rightarrow> bool option" where
  "is_quit_cmd_on tmp0 s =
     (case skip_ws s of
        None \<Rightarrow> None
      | Some s1 \<Rightarrow>
          (case load s1 0 of
             None \<Rightarrow> None
           | Some c0 \<Rightarrow>
               if c0 = NUL then Some False
               else
                 (case copy_token s1 0 tmp0 of
                    None \<Rightarrow> None
                  | Some (i, tmp) \<Rightarrow>
                      (case store tmp i NUL of
                         None \<Rightarrow> None
                       | Some tmp' \<Rightarrow>
                           (case strcmp tmp' (lit ''quit'') of
                              None \<Rightarrow> None
                            | Some r1 \<Rightarrow>
                                if r1 = 0 then Some True
                                else (case strcmp tmp' (lit ''exit'') of
                                        None \<Rightarrow> None
                                      | Some r2 \<Rightarrow> Some (r2 = 0)))))))"

text \<open>
  Where the classifier is called, the stack is taken zeroed: the result does not depend
  on it (\<open>is_quit_cmd_on_spec\<close>).
\<close>

definition is_quit_cmd :: "string \<Rightarrow> bool option" where
  "is_quit_cmd s = is_quit_cmd_on (replicate 8 NUL) s"

subsection \<open>client.c\<close>

text \<open>
  Whether plain \<open>char\<close> is signed is the compiler's choice; \<open>char_val sg c\<close> is the
  value of \<open>c\<close> after integer promotion under either choice.
\<close>

definition char_val :: "bool \<Rightarrow> char \<Rightarrow> int" where
  "char_val sg c = (if sg \<and> 128 \<le> (of_char c :: int) then of_char c - 256 else of_char c)"

function client_copy_token :: "bool \<Rightarrow> string \<Rightarrow> nat \<Rightarrow> string \<Rightarrow> (nat \<times> string) option" where
  "client_copy_token sg s i tmp =
     (if i < 7 then
        (case load s i of
           None \<Rightarrow> None
         | Some c \<Rightarrow>
             if c \<noteq> NUL \<and> c \<noteq> CHR '' '' \<and> c \<noteq> CHR 0x09 \<and> c \<noteq> CHR 0x0D \<and> c \<noteq> CHR 0x0A
             then
               (let c' = (if char_val sg c \<ge> 65 \<and> char_val sg c \<le> 90
                          then char_of (char_val sg c - 65 + 97) else c)
                in (case store tmp i c' of
                      None \<Rightarrow> None
                    | Some tmp' \<Rightarrow> client_copy_token sg s (i + 1) tmp'))
             else Some (i, tmp))
      else Some (i, tmp))"
  by pat_completeness auto
termination
  by (relation "measure (\<lambda>(sg, s, i, tmp). 7 - i)") auto

definition client_is_quit_cmd_on :: "bool \<Rightarrow> string \<Rightarrow> string \<Rightarrow> bool option" where
  "client_is_quit_cmd_on sg tmp0 s =
     (case skip_ws s of
        None \<Rightarrow> None
      | Some s1 \<Rightarrow>
          (case load s1 0 of
             None \<Rightarrow> None
           | Some c0 \<Rightarrow>
               if c0 = NUL then Some False
               else
                 (case client_copy_token sg s1 0 tmp0 of
                    None \<Rightarrow> None
                  | Some (i, tmp) \<Rightarrow>
                      (case store tmp i NUL of
                         None \<Rightarrow> None
                       | Some tmp' \<Rightarrow>
                           (case strcmp tmp' (lit ''quit'') of
                              None \<Rightarrow> None
                            | Some r1 \<Rightarrow>
                                if r1 = 0 then Some True
                                else (case strcmp tmp' (lit ''exit'') of
                                        None \<Rightarrow> None
                                      | Some r2 \<Rightarrow> Some (r2 = 0)))))))"

text \<open>
  The stack is taken zeroed and plain \<open>char\<close> signed, as on the usual targets; the
  result depends on neither (\<open>client_is_quit_cmd_on_eq\<close>, \<open>is_quit_cmd_on_spec\<close>).
\<close>

definition client_is_quit_cmd :: "string \<Rightarrow> bool option" where
  "client_is_quit_cmd s = client_is_quit_cmd_on True (replicate 8 NUL) s"

subsection \<open>The classifier as the specification words it\<close>

definition spec_ws :: "char \<Rightarrow> bool" where
  "spec_ws c = (c = CHR '' '' \<or> c = CHR 0x09 \<or> c = CHR 0x0D \<or> c = CHR 0x0A)"

definition spec_fold :: "char \<Rightarrow> char" where
  "spec_fold c = (if (65::nat) \<le> of_char c \<and> of_char c \<le> (90::nat)
                  then char_of (of_char c + (32::nat)) else c)"

text \<open>
  Strip the leading whitespace, take the first token delimited by whitespace, examine
  at most 7 characters of it.
\<close>

definition spec_token :: "string \<Rightarrow> string" where
  "spec_token s = take 7 (takeWhile (\<lambda>c. \<not> spec_ws c) (dropWhile spec_ws (cstr s)))"

definition spec_is_quit :: "string \<Rightarrow> bool" where
  "spec_is_quit s =
     (map spec_fold (spec_token s) = ''quit'' \<or> map spec_fold (spec_token s) = ''exit'')"

text \<open>A token character: neither the terminator nor whitespace.\<close>

definition tokc :: "char \<Rightarrow> bool" where
  "tokc c = (c \<noteq> NUL \<and> \<not> spec_ws c)"

section \<open>The classifier: proofs\<close>

lemma skip_ws_eq: "\<exists>c\<in>set s. \<not> spec_ws c \<Longrightarrow> skip_ws s = Some (dropWhile spec_ws s)"
  by (induction s) (auto simp: spec_ws_def)

lemma NUL_not_ws: "\<not> spec_ws NUL"
  by (simp add: spec_ws_def NUL_def)

lemma token_chars: "takeWhile (\<lambda>c. \<not> spec_ws c) (dropWhile spec_ws (cstr s)) =
    takeWhile (\<lambda>c. c \<noteq> NUL \<and> \<not> spec_ws c) (dropWhile spec_ws s)"
proof (induction s)
  case Nil
  then show ?case by (simp add: cstr_def)
next
  case (Cons c cs)
  show ?case
  proof (cases "spec_ws c")
    case True
    then have "c \<noteq> NUL" using NUL_not_ws by auto
    with True Cons show ?thesis by (simp add: cstr_def)
  next
    case False
    have tt: "takeWhile (\<lambda>c. \<not> spec_ws c) (takeWhile (\<lambda>c. c \<noteq> NUL) cs)
         = takeWhile (\<lambda>c. c \<noteq> NUL \<and> \<not> spec_ws c) cs"
      by (induction cs) auto
    from False tt show ?thesis by (simp add: cstr_def)
  qed
qed

lemma fold_eq: "char_of (tolower (of_char c)) = spec_fold c"
proof -
  define n :: nat where "n = of_char c"
  have a: "(of_char c :: int) = int n" by (simp add: n_def of_nat_of_char)
  have b: "char_of (int n + 32) = char_of (n + 32)"
    using char_of_nat [of "n + 32", where ?'a = int] by simp
  have c: "char_of (int n) = c"
    using char_of_nat [of n, where ?'a = int] by (simp add: n_def)
  show ?thesis
    unfolding tolower_def spec_fold_def a n_def [symmetric]
    using b c by auto
qed

lemma fold_NUL: "c \<noteq> NUL \<Longrightarrow> spec_fold c \<noteq> NUL"
proof -
  assume h: "c \<noteq> NUL"
  have "(of_char (spec_fold c) :: nat) \<noteq> 0" 
  proof (cases "(65::nat) \<le> of_char c \<and> of_char c \<le> (90::nat)")
    case True
    then have "(of_char (spec_fold c) :: nat) = (of_char c + 32) mod 256"
      by (simp add: spec_fold_def)
    with True show ?thesis by simp
  next
    case False
    have "(of_char c :: nat) \<noteq> of_char NUL" using h by simp
    with False show ?thesis by (simp add: spec_fold_def NUL_def)
  qed
  then show ?thesis by (auto simp: NUL_def)
qed

lemma strcmp_zero_iff:
  "NUL \<notin> set xs \<Longrightarrow> NUL \<notin> set ys \<Longrightarrow>
   \<exists>v. strcmp (xs @ NUL # r) (ys @ [NUL]) = Some v \<and> (v = 0 \<longleftrightarrow> xs = ys)"
proof (induction xs arbitrary: ys)
  case Nil
  then show ?case by (cases ys) auto
next
  case (Cons x xs)
  show ?case
  proof (cases ys)
    case Nil
    with Cons.prems show ?thesis by auto
  next
    case (Cons y ys')
    with Cons.prems Cons.IH [of ys'] show ?thesis by auto
  qed
qed


lemma copy_token_unfold:
  "copy_token s i tmp =
     (if i < 7 then
        (case load s i of
           None \<Rightarrow> None
         | Some c \<Rightarrow>
             if tokc c
             then (case store tmp i (char_of (tolower (of_char c))) of
                     None \<Rightarrow> None
                   | Some tmp' \<Rightarrow> copy_token s (i + 1) tmp')
             else Some (i, tmp))
      else Some (i, tmp))"
  by (subst copy_token.simps) (simp add: tokc_def spec_ws_def split: option.splits)

declare copy_token.simps [simp del]

lemma copy_token_eq:
  "i \<le> 7 \<Longrightarrow> length tmp = 8 \<Longrightarrow> NUL \<in> set (drop i s) \<Longrightarrow>
   copy_token s i tmp =
     Some (i + length (take (7 - i) (takeWhile tokc (drop i s))),
           take i tmp @ map spec_fold (take (7 - i) (takeWhile tokc (drop i s)))
             @ drop (i + length (take (7 - i) (takeWhile tokc (drop i s)))) tmp)"
proof (induction s i tmp rule: copy_token.induct)
  case (1 s i tmp)
  show ?case
  proof (cases "i < 7")
    case False
    with "1.prems" have "i = 7" by simp
    then show ?thesis by (subst copy_token_unfold) simp
  next
    case True
    from "1.prems" have "drop i s \<noteq> []" by auto
    then have il: "i < length s" by simp
    then have ld: "load s i = Some (s ! i)" by (simp add: load_def)
    have dr: "drop i s = s ! i # drop (Suc i) s" using il by (simp add: Cons_nth_drop_Suc)
    have cond: "(s ! i \<noteq> NUL \<and> s ! i \<noteq> CHR '' '' \<and> s ! i \<noteq> CHR 0x09 \<and> s ! i \<noteq> CHR 0x0D
        \<and> s ! i \<noteq> CHR 0x0A) = tokc (s ! i)"
      by (simp add: tokc_def spec_ws_def)
    show ?thesis
    proof (cases "tokc (s ! i)")
      case False
      then have "takeWhile tokc (drop i s) = []" by (simp add: dr)
      with False True ld show ?thesis
        by (simp add: copy_token_unfold [of s i tmp])
    next
      case tk: True
      let ?c = "char_of (tolower (of_char (s ! i)))"
      have st: "store tmp i ?c = Some (tmp[i := ?c])"
        using True "1.prems" by (simp add: store_def)
      have nul: "NUL \<in> set (drop (i + 1) s)"
        using "1.prems"(3) tk by (auto simp: dr tokc_def)
      have ih: "copy_token s (i + 1) (tmp[i := ?c]) =
        Some (i + 1 + length (take (7 - (i + 1)) (takeWhile tokc (drop (i + 1) s))),
           take (i + 1) (tmp[i := ?c]) @ map spec_fold (take (7 - (i + 1)) (takeWhile tokc (drop (i + 1) s)))
             @ drop (i + 1 + length (take (7 - (i + 1)) (takeWhile tokc (drop (i + 1) s)))) (tmp[i := ?c]))"
        using "1.IH" [OF True ld cond [THEN iffD2, OF tk] st] True "1.prems" nul
        by simp
      have s7: "7 - i = Suc (7 - (i + 1))" using True by simp
      have tw: "take (7 - i) (takeWhile tokc (drop i s)) =
                s ! i # take (7 - (i + 1)) (takeWhile tokc (drop (i + 1) s))"
        unfolding s7 using tk by (simp add: dr)
      have tk1: "take (i + 1) (tmp[i := ?c]) = take i tmp @ [spec_fold (s ! i)]"
        using True "1.prems" by (simp add: take_Suc_conv_app_nth fold_eq)
      have "copy_token s i tmp = copy_token s (i + 1) (tmp[i := ?c])"
        using True ld st tk by (simp add: copy_token_unfold [of s i tmp])
      then show ?thesis
        unfolding ih tw tk1 by (simp add: drop_update_cancel)
    qed
  qed
qed

lemma NUL_dropWhile: "NUL \<in> set s \<Longrightarrow> NUL \<in> set (dropWhile spec_ws s)"
  using NUL_not_ws by (induction s) auto

lemma is_quit_cmd_on_spec:
  assumes len: "length tmp0 = 8" and nul: "NUL \<in> set s"
  shows "is_quit_cmd_on tmp0 s = Some (spec_is_quit s)"
proof -
  let ?s1 = "dropWhile spec_ws s"
  have sk: "skip_ws s = Some ?s1"
    by (rule skip_ws_eq) (use nul NUL_not_ws in blast)
  have nul1: "NUL \<in> set ?s1"
    using nul by (rule NUL_dropWhile)
  have ne: "?s1 \<noteq> []" using nul NUL_not_ws by auto
  then have ld: "load ?s1 0 = Some (hd ?s1)"
    by (simp add: load_def hd_conv_nth)
  let ?tok = "take 7 (takeWhile tokc ?s1)"
  have tokeq: "spec_token s = ?tok"
    unfolding spec_token_def token_chars tokc_def ..
  show ?thesis
  proof (cases "hd ?s1 = NUL")
    case True
    then have "takeWhile tokc ?s1 = []"
      using ne by (cases ?s1) (auto simp: tokc_def)
    then have "\<not> spec_is_quit s" by (simp add: spec_is_quit_def tokeq)
    with True sk ld show ?thesis by (simp add: is_quit_cmd_on_def)
  next
    case False
    define n where "n = length ?tok"
    define t where "t = map spec_fold ?tok"
    have n7: "n \<le> 7" by (simp add: n_def)
    have lt: "length t = n" by (simp add: n_def t_def)
    have ct: "copy_token ?s1 0 tmp0 = Some (n, t @ drop n tmp0)"
      using copy_token_eq [of 0 tmp0 ?s1] len nul1 by (simp add: n_def t_def)
    have "drop n tmp0 \<noteq> []" using len n7 by simp
    then obtain x r where dr: "drop n tmp0 = x # r" by (cases "drop n tmp0") auto
    have st: "store (t @ drop n tmp0) n NUL = Some (t @ NUL # r)"
      unfolding dr by (simp add: store_def lt list_update_append)
    have nn: "NUL \<notin> set t"
    proof
      assume "NUL \<in> set t"
      then obtain c where c: "c \<in> set ?tok" "spec_fold c = NUL" by (auto simp: t_def)
      from c(1) have "c \<in> set (takeWhile tokc ?s1)" by (rule in_set_takeD)
      then have "tokc c" by (rule set_takeWhileD [THEN conjunct2])
      then show False using c(2) fold_NUL by (auto simp: tokc_def)
    qed
    have q: "NUL \<notin> set ''quit''" and e: "NUL \<notin> set ''exit''" by (simp_all add: NUL_def)
    obtain v1 where v1: "strcmp (t @ NUL # r) (lit ''quit'') = Some v1" "v1 = 0 \<longleftrightarrow> t = ''quit''"
      using strcmp_zero_iff [OF nn q, of r] unfolding lit_def by blast
    obtain v2 where v2: "strcmp (t @ NUL # r) (lit ''exit'') = Some v2" "v2 = 0 \<longleftrightarrow> t = ''exit''"
      using strcmp_zero_iff [OF nn e, of r] unfolding lit_def by blast
    have "is_quit_cmd_on tmp0 s = Some (t = ''quit'' \<or> t = ''exit'')"
      unfolding is_quit_cmd_on_def sk using ld False ct st v1 v2 by simp
    then show ?thesis by (simp add: spec_is_quit_def tokeq t_def)
  qed
qed

lemma client_fold_eq:
  "(if char_val sg c \<ge> 65 \<and> char_val sg c \<le> 90
    then char_of (char_val sg c - 65 + 97) else c) = char_of (tolower (of_char c))"
proof (cases "sg \<and> 128 \<le> (of_char c :: int)")
  case True
  have "(of_char c :: int) < 256"
    using nat_of_char_less_256 [of c] by (simp flip: of_nat_of_char [where ?'a = int])
  with True show ?thesis by (auto simp: char_val_def tolower_def)
next
  case False
  have "(of_char c :: int) - 65 + 97 = of_char c + 32" by simp
  with False show ?thesis by (auto simp: char_val_def tolower_def)
qed

declare client_copy_token.simps [simp del]

lemma client_copy_token_eq: "client_copy_token sg s i tmp = copy_token s i tmp"
proof (induction s i tmp rule: copy_token.induct)
  case (1 s i tmp)
  show ?case
    apply (subst client_copy_token.simps)
    apply (subst copy_token.simps)
    apply (simp only: client_fold_eq Let_def)
    apply (insert "1.IH")
    apply (auto split: option.splits)
    done
qed

lemma client_is_quit_cmd_on_eq: "client_is_quit_cmd_on sg tmp0 s = is_quit_cmd_on tmp0 s"
  unfolding client_is_quit_cmd_on_def is_quit_cmd_on_def client_copy_token_eq ..

lemma spec_QUIT: "spec_is_quit (lit ''QUIT'')" 
  by (simp add: spec_is_quit_def spec_token_def cstr_def lit_def NUL_def spec_ws_def spec_fold_def char_of_eq_iff)
lemma spec_exit_padded: "spec_is_quit (lit (''  exit'' @ [LF]))" 
  by (simp add: spec_is_quit_def spec_token_def cstr_def lit_def NUL_def spec_ws_def spec_fold_def LF_def char_of_eq_iff)
lemma spec_Quit_now: "spec_is_quit (lit ''Quit now'')" 
  by (simp add: spec_is_quit_def spec_token_def cstr_def lit_def NUL_def spec_ws_def spec_fold_def char_of_eq_iff)
lemma spec_quitter: "\<not> spec_is_quit (lit ''quitter'')" 
  by (simp add: spec_is_quit_def spec_token_def cstr_def lit_def NUL_def spec_ws_def spec_fold_def char_of_eq_iff)
lemma spec_exiting: "\<not> spec_is_quit (lit ''exiting'')" 
  by (simp add: spec_is_quit_def spec_token_def cstr_def lit_def NUL_def spec_ws_def spec_fold_def char_of_eq_iff)
lemma spec_blank: "\<forall>c\<in>set (cstr s). spec_ws c \<Longrightarrow> \<not> spec_is_quit s" 
proof -
  assume "\<forall>c\<in>set (cstr s). spec_ws c"
  then have *: "dropWhile spec_ws (cstr s) = []" by simp
  show ?thesis unfolding spec_is_quit_def spec_token_def * by simp
qed

lemma is_quit_cmd_spec: "NUL \<in> set s \<Longrightarrow> is_quit_cmd s = Some (spec_is_quit s)"
  by (simp add: is_quit_cmd_def is_quit_cmd_on_spec)

lemma NUL_in_lit: "NUL \<in> set (lit s)"
  by (simp add: lit_def)

text \<open>
  C1. For every NUL-terminated byte string \<open>s\<close> (and whatever the stack held where
  \<open>tmp\<close> is allocated), \<open>is_quit_cmd\<close> of server.c returns true exactly when the first
  whitespace-delimited token after the leading spaces, tabs, carriage returns and
  newlines, cut at 7 characters and case-folded, is "quit" or "exit". "QUIT",
  "  exit\n" and "Quit now" are termination commands, "quitter" and "exiting" are not,
  and an empty or all-whitespace string is not.
\<close>

theorem is_quit_cmd_first_token:
  assumes "length tmp0 = 8"
  shows "(NUL \<in> set s \<longrightarrow> is_quit_cmd_on tmp0 s = Some (spec_is_quit s))
    \<and> is_quit_cmd_on tmp0 (lit ''QUIT'') = Some True
    \<and> is_quit_cmd_on tmp0 (lit (''  exit'' @ [LF])) = Some True
    \<and> is_quit_cmd_on tmp0 (lit ''Quit now'') = Some True
    \<and> is_quit_cmd_on tmp0 (lit ''quitter'') = Some False
    \<and> is_quit_cmd_on tmp0 (lit ''exiting'') = Some False
    \<and> (NUL \<in> set s \<and> (\<forall>c\<in>set (cstr s). spec_ws c) \<longrightarrow> is_quit_cmd_on tmp0 s = Some False)"
proof -
  note spec = is_quit_cmd_on_spec [OF assms]
  have general: "NUL \<in> set s \<longrightarrow> is_quit_cmd_on tmp0 s = Some (spec_is_quit s)"
    by (simp add: spec)
  have e1: "is_quit_cmd_on tmp0 (lit ''QUIT'') = Some True"
    using spec [OF NUL_in_lit, of "''QUIT''"] spec_QUIT by simp
  have e2: "is_quit_cmd_on tmp0 (lit (''  exit'' @ [LF])) = Some True"
    using spec [OF NUL_in_lit, of "''  exit'' @ [LF]"] spec_exit_padded by simp
  have e3: "is_quit_cmd_on tmp0 (lit ''Quit now'') = Some True"
    using spec [OF NUL_in_lit, of "''Quit now''"] spec_Quit_now by simp
  have e4: "is_quit_cmd_on tmp0 (lit ''quitter'') = Some False"
    using spec [OF NUL_in_lit, of "''quitter''"] spec_quitter by simp
  have e5: "is_quit_cmd_on tmp0 (lit ''exiting'') = Some False"
    using spec [OF NUL_in_lit, of "''exiting''"] spec_exiting by simp
  have blank: "NUL \<in> set s \<and> (\<forall>c\<in>set (cstr s). spec_ws c) \<longrightarrow> is_quit_cmd_on tmp0 s = Some False"
    using spec [of s] spec_blank [of s] by simp
  from general e1 e2 e3 e4 e5 blank show ?thesis by (intro conjI)
qed

theorem is_quit_cmd_first_token_witness:
  "length (replicate 8 (CHR ''x'')) = 8
   \<and> NUL \<in> set (lit ''  quit now'')
   \<and> is_quit_cmd_on (replicate 8 (CHR ''x'')) (lit ''  quit now'') = Some True
   \<and> is_quit_cmd_on (replicate 8 (CHR ''x'')) (lit ''QUIT'') = Some True
   \<and> is_quit_cmd_on (replicate 8 (CHR ''x'')) (lit ''quitter'') = Some False"
proof -
  have len: "length (replicate 8 (CHR ''x'')) = 8" by simp
  have sp: "spec_is_quit (lit ''  quit now'')"
    by (simp add: spec_is_quit_def spec_token_def cstr_def lit_def NUL_def spec_ws_def
        spec_fold_def char_of_eq_iff)
  show ?thesis
    using is_quit_cmd_first_token [OF len, of "lit ''  quit now''"] sp NUL_in_lit [of "''  quit now''"]
    by simp
qed

text \<open>
  C10. For every NUL-terminated byte string, \<open>is_quit_cmd\<close> of server.c (folding with
  \<open>tolower\<close>) and \<open>is_quit_cmd\<close> of client.c (folding \<open>'A'\<close> to \<open>'Z'\<close> by
  arithmetic) return the same boolean, whether plain \<open>char\<close> is signed or not and
  whatever either stack held.
\<close>

theorem client_server_classifiers_agree:
  assumes "NUL \<in> set s" and "length t1 = 8" and "length t2 = 8"
  shows "\<exists>b. is_quit_cmd_on t1 s = Some b \<and> client_is_quit_cmd_on sg t2 s = Some b"
  using assms by (simp add: client_is_quit_cmd_on_eq is_quit_cmd_on_spec)

theorem client_server_classifiers_agree_witness:
  "NUL \<in> set (lit ''EXIT'') \<and> length (replicate 8 (CHR ''a'')) = 8 \<and> length (replicate 8 (CHR ''b'')) = 8
   \<and> (\<exists>b. is_quit_cmd_on (replicate 8 (CHR ''a'')) (lit ''EXIT'') = Some b
          \<and> client_is_quit_cmd_on True (replicate 8 (CHR ''b'')) (lit ''EXIT'') = Some b)"
proof -
  have a: "NUL \<in> set (lit ''EXIT'')" by (rule NUL_in_lit)
  have b: "length (replicate 8 (CHR ''a'')) = 8" and c: "length (replicate 8 (CHR ''b'')) = 8"
    by simp_all
  from client_server_classifiers_agree [OF a b c, of True] a b c show ?thesis by blast
qed

section \<open>The process and the system calls it makes\<close>

text \<open>
  A process is modelled with its environment: what each system call will return is read
  from a script, in the order of the calls. A script that has run out means the call
  never returns (the process stays blocked), and the function that made it is \<open>None\<close>.
\<close>

text \<open>\<open>errno.h\<close> on Linux.\<close>

definition EINTR :: int where
  "EINTR = 4"

definition ECHILD :: int where
  "ECHILD = 10"

text \<open>\<open>signal.h\<close> on Linux.\<close>

definition SIGPIPE :: int where
  "SIGPIPE = 13"

datatype rd_event = RdErr int | RdData string

datatype wr_event = WrErr int | WrRoom nat | WrSignal int

datatype acc_event = AccErr int | AccConn int "string \<times> nat"

datatype fork_event = ForkErr int | ForkChild int | ForkParent int

datatype fmt_arg = AInt int | AStr string

datatype printed = Printf string "fmt_arg list"

record proc =
  pid :: int
  errno :: int
  fds :: "int set"
  rx :: "int \<Rightarrow> rd_event list"
  tx :: "int \<Rightarrow> wr_event list"
  wire :: "int \<Rightarrow> string"
  stdin :: string
  stdout :: "printed list"
  stderr :: "(string \<times> int) list"
  accepts :: "acc_event list"
  forks :: "fork_event list"
  children :: "(int \<times> bool) list"

text \<open>How a statement ends: the loop goes on, the loop is left, the function returns,
  the process exits with a status, a signal terminates the process, or the behaviour is
  undefined (an access outside an array).\<close>

datatype flow = Continue | Break | Return | Exit int | Signalled int | Fault

text \<open>
  How a call of \<open>write\<close>, or of a function that writes, ends: it returns, it never
  returns (the process stays blocked in it), or a signal raised in it terminates the
  process, in the state given.
\<close>

datatype 'a outcome = Returns 'a | Blocks | Killed int proc

definition printf :: "proc \<Rightarrow> string \<Rightarrow> fmt_arg list \<Rightarrow> proc" where
  "printf p fmt args = p\<lparr>stdout := stdout p @ [Printf fmt args]\<rparr>"

definition perror :: "proc \<Rightarrow> string \<Rightarrow> proc" where
  "perror p msg = p\<lparr>stderr := stderr p @ [(msg, errno p)]\<rparr>"

text \<open>\<open>die\<close>: \<open>perror(msg); exit(1);\<close>\<close>

definition die :: "proc \<Rightarrow> string \<Rightarrow> flow \<times> proc" where
  "die p msg = (Exit 1, perror p msg)"

definition memset :: "string \<Rightarrow> char \<Rightarrow> nat \<Rightarrow> string option" where
  "memset a c n = (if n \<le> length a then Some (replicate n c @ drop n a) else None)"

text \<open>The argument of a \<open>%s\<close> conversion: it must hold a NUL.\<close>

definition c_string :: "string \<Rightarrow> string option" where
  "c_string a = (if NUL \<in> set a then Some (cstr a) else None)"

text \<open>
  \<open>write(fd, buf, count)\<close>: an error sets \<open>errno\<close> and returns -1; otherwise the kernel
  takes as many bytes as it has room for, at most \<open>count\<close>, and returns their number.
  A write on a connection that is no longer connected raises SIGPIPE. Neither program
  sets the disposition of SIGPIPE (server.c installs a handler for SIGCHLD only), so its
  action is the default one, which terminates the process inside \<open>write\<close>: the event
  \<open>WrSignal\<close>. A process that was started with SIGPIPE ignored gets the error EPIPE
  (\<open>WrErr 32\<close>) instead.
\<close>

definition sys_write :: "proc \<Rightarrow> int \<Rightarrow> string \<Rightarrow> nat \<Rightarrow> (int \<times> proc) outcome" where
  "sys_write p fd buf count =
     (case tx p fd of
        [] \<Rightarrow> Blocks
      | WrErr e # es \<Rightarrow> Returns (- 1, p\<lparr>errno := e, tx := (tx p)(fd := es)\<rparr>)
      | WrRoom k # es \<Rightarrow>
          Returns (int (min k count),
                   p\<lparr>tx := (tx p)(fd := es),
                     wire := (wire p)(fd := wire p fd @ take (min k count) buf)\<rparr>)
      | WrSignal s # es \<Rightarrow> Killed s (p\<lparr>tx := (tx p)(fd := es)\<rparr>))"

text \<open>
  \<open>read(fd, buf, count)\<close>: an error sets \<open>errno\<close> and returns -1; otherwise the bytes
  that have arrived, at most \<open>count\<close> of them, are stored at the start of \<open>buf\<close> and
  their number is returned (0: the peer has shut the connection down). Bytes beyond
  \<open>count\<close> stay queued for the next read.
\<close>

definition sys_read :: "proc \<Rightarrow> int \<Rightarrow> string \<Rightarrow> nat \<Rightarrow> (int \<times> string \<times> proc) option" where
  "sys_read p fd buf count =
     (case rx p fd of
        [] \<Rightarrow> None
      | RdErr e # es \<Rightarrow> Some (- 1, buf, p\<lparr>errno := e, rx := (rx p)(fd := es)\<rparr>)
      | RdData d # es \<Rightarrow>
          if length d \<le> count
          then Some (int (length d), d @ drop (length d) buf, p\<lparr>rx := (rx p)(fd := es)\<rparr>)
          else Some (int count, take count d @ drop count buf,
                     p\<lparr>rx := (rx p)(fd := RdData (drop count d) # es)\<rparr>))"

definition sys_close :: "proc \<Rightarrow> int \<Rightarrow> proc" where
  "sys_close p fd = p\<lparr>fds := fds p - {fd}\<rparr>"



text \<open>
  \<open>waitpid(-1, NULL, options)\<close>; \<open>nohang\<close> says whether \<open>options\<close> has WNOHANG. A child
  that has terminated (marked \<open>True\<close>) is reaped and its pid returned. With no such
  child: -1 and ECHILD when there is no child at all, 0 under WNOHANG, and otherwise
  the call blocks.
\<close>

definition sys_waitpid :: "proc \<Rightarrow> bool \<Rightarrow> (int \<times> proc) option" where
  "sys_waitpid p nohang =
     (case filter snd (children p) of
        z # zs \<Rightarrow> Some (fst z, p\<lparr>children := remove1 z (children p)\<rparr>)
      | [] \<Rightarrow>
          if children p = [] then Some (- 1, p\<lparr>errno := ECHILD\<rparr>)
          else if nohang then Some (0, p)
          else None)"

section \<open>Lifecycle Reaper: \<open>reap_children\<close> (server.c)\<close>

lemma sys_waitpid_fewer:
  "sys_waitpid p nh = Some (r, p') \<Longrightarrow> 0 < r \<Longrightarrow> length (children p') < length (children p)"
proof -
  assume a: "sys_waitpid p nh = Some (r, p')" and r: "0 < r"
  show ?thesis
  proof (cases "filter snd (children p)")
    case Nil
    with a r show ?thesis by (auto simp: sys_waitpid_def split: if_splits)
  next
    case (Cons z zs)
    then have "z \<in> set (filter snd (children p))" by simp
    then have zin: "z \<in> set (children p)" by simp
    then have "length (remove1 z (children p)) < length (children p)"
      by (simp add: length_remove1) (cases "children p"; simp)
    with a Cons show ?thesis by (auto simp: sys_waitpid_def)
  qed
qed

function reap_children :: "proc \<Rightarrow> int \<Rightarrow> proc option" where
  "reap_children p signo =
     (case sys_waitpid p True of
        None \<Rightarrow> None
      | Some (r, p') \<Rightarrow> if r > 0 then reap_children p' signo else Some p')"
  by pat_completeness auto
termination
  by (relation "measure (\<lambda>(p, signo). length (children p))") (auto dest: sys_waitpid_fewer)

section \<open>Reliable I/O: \<open>send_all\<close> (server.c and client.c), \<open>recv_some\<close> (client.c)\<close>

lemma sys_write_consumes:
  "sys_write p fd buf count = Returns (n, p') \<Longrightarrow> length (tx p' fd) < length (tx p fd)"
  by (auto simp: sys_write_def split: list.splits wr_event.splits)

text \<open>The loop of \<open>send_all\<close>, from the state \<open>sent\<close>.\<close>

function send_all_loop :: "proc \<Rightarrow> int \<Rightarrow> string \<Rightarrow> nat \<Rightarrow> nat \<Rightarrow> (int \<times> proc) outcome" where
  "send_all_loop p fd buf len sent =
     (if sent < len then
        (case sys_write p fd (drop sent buf) (len - sent) of
           Blocks \<Rightarrow> Blocks
         | Killed s q \<Rightarrow> Killed s q
         | Returns (n, p') \<Rightarrow>
             if n < 0 then
               (if errno p' = EINTR then send_all_loop p' fd buf len sent
                else Returns (- 1, p'))
             else if n = 0 then Returns (0, p')
             else send_all_loop p' fd buf len (sent + nat n))
      else Returns (0, p))"
  by pat_completeness auto
termination
  by (relation "measure (\<lambda>(p, fd, buf, len, sent). length (tx p fd))")
     (auto dest: sys_write_consumes)

definition send_all :: "proc \<Rightarrow> int \<Rightarrow> string \<Rightarrow> nat \<Rightarrow> (int \<times> proc) outcome" where
  "send_all p fd buf len = send_all_loop p fd buf len 0"

text \<open>client.c has its own copy of \<open>send_all\<close>.\<close>

function client_send_all_loop :: "proc \<Rightarrow> int \<Rightarrow> string \<Rightarrow> nat \<Rightarrow> nat \<Rightarrow> (int \<times> proc) outcome" where
  "client_send_all_loop p fd buf len sent =
     (if sent < len then
        (case sys_write p fd (drop sent buf) (len - sent) of
           Blocks \<Rightarrow> Blocks
         | Killed s q \<Rightarrow> Killed s q
         | Returns (n, p') \<Rightarrow>
             if n < 0 then
               (if errno p' = EINTR then client_send_all_loop p' fd buf len sent
                else Returns (- 1, p'))
             else if n = 0 then Returns (0, p')
             else client_send_all_loop p' fd buf len (sent + nat n))
      else Returns (0, p))"
  by pat_completeness auto
termination
  by (relation "measure (\<lambda>(p, fd, buf, len, sent). length (tx p fd))")
     (auto dest: sys_write_consumes)

definition client_send_all :: "proc \<Rightarrow> int \<Rightarrow> string \<Rightarrow> nat \<Rightarrow> (int \<times> proc) outcome" where
  "client_send_all p fd buf len = client_send_all_loop p fd buf len 0"

lemma sys_read_error_consumes:
  "sys_read p fd buf count = Some (n, buf', p') \<Longrightarrow> n < 0 \<Longrightarrow>
   length (rx p' fd) < length (rx p fd)"
  by (auto simp: sys_read_def split: list.splits rd_event.splits if_splits)

function recv_some :: "proc \<Rightarrow> int \<Rightarrow> string \<Rightarrow> nat \<Rightarrow> (int \<times> string \<times> proc) option" where
  "recv_some p fd buf cap =
     (case sys_read p fd buf cap of
        None \<Rightarrow> None
      | Some (n, buf', p') \<Rightarrow>
          if n < 0 \<and> errno p' = EINTR then recv_some p' fd buf' cap
          else Some (n, buf', p'))"
  by pat_completeness auto
termination
  by (relation "measure (\<lambda>(p, fd, buf, cap). length (rx p fd))")
     (auto dest: sys_read_error_consumes)

section \<open>Session Handler: \<open>handle_client_loop\<close> (server.c)\<close>

text \<open>
  What follows the receive in one iteration (lines 94 to 121): \<open>n > 0\<close> bytes are in
  \<open>buffer\<close>.
\<close>

definition session_reply ::
  "proc \<Rightarrow> int \<Rightarrow> string \<times> nat \<Rightarrow> string \<Rightarrow> int \<Rightarrow> (flow \<times> proc \<times> string) option" where
  "session_reply p fd cli_addr buffer n =
     (case store_at buffer n NUL of
        None \<Rightarrow> Some (Fault, p, buffer)
      | Some buffer' \<Rightarrow>
     (case c_string buffer' of
        None \<Rightarrow> Some (Fault, p, buffer')
      | Some msg \<Rightarrow>
     (let p1 = printf p ''[pid %ld] msg from %s:%u -> %s''
                 [AInt (pid p), AStr (fst cli_addr), AInt (int (snd cli_addr)), AStr msg] in
      case load_at buffer' (n - 1) of
        None \<Rightarrow> Some (Fault, p1, buffer')
      | Some c \<Rightarrow>
     (let p2 = (if c \<noteq> LF then printf p1 ''\<newline>'' [] else p1) in
      case is_quit_cmd buffer' of
        None \<Rightarrow> Some (Fault, p2, buffer')
      | Some quit \<Rightarrow>
          if quit then
            (case strlen (lit ''Bye.\<newline>'') of
               None \<Rightarrow> Some (Fault, p2, buffer')
             | Some len \<Rightarrow>
            (case send_all p2 fd (lit ''Bye.\<newline>'') len of
               Blocks \<Rightarrow> None
             | Killed s q \<Rightarrow> Some (Signalled s, q, buffer')
             | Returns (r, p3) \<Rightarrow>
                 Some (Break,
                       printf (if r < 0 then perror p3 ''ERROR writing to socket'' else p3)
                         ''[pid %ld] client disconnected (quit/exit): %s:%u\<newline>''
                         [AInt (pid p3), AStr (fst cli_addr), AInt (int (snd cli_addr))],
                       buffer')))
          else
            (case strlen (lit ''I got your message\<newline>'') of
               None \<Rightarrow> Some (Fault, p2, buffer')
             | Some len \<Rightarrow>
            (case send_all p2 fd (lit ''I got your message\<newline>'') len of
               Blocks \<Rightarrow> None
             | Killed s q \<Rightarrow> Some (Signalled s, q, buffer')
             | Returns (r, p3) \<Rightarrow>
                 if r < 0 then
                   (case die p3 ''ERROR writing to socket'' of (fl, p4) \<Rightarrow> Some (fl, p4, buffer'))
                 else Some (Continue, p3, buffer')))))))"

text \<open>One iteration of \<open>while (1)\<close> (lines 76 to 122).\<close>

definition session_step ::
  "proc \<Rightarrow> int \<Rightarrow> string \<times> nat \<Rightarrow> string \<Rightarrow> (flow \<times> proc \<times> string) option" where
  "session_step p fd cli_addr buffer =
     (case memset buffer NUL 256 of
        None \<Rightarrow> Some (Fault, p, buffer)
      | Some b0 \<Rightarrow>
     (case sys_read p fd b0 255 of
        None \<Rightarrow> None
      | Some (n, b1, p1) \<Rightarrow>
          if n < 0 then
            (if errno p1 = EINTR then Some (Continue, p1, b1)
             else (case die p1 ''ERROR reading from socket'' of (fl, p2) \<Rightarrow> Some (fl, p2, b1)))
          else if n = 0 then
            Some (Break,
                  printf p1 ''[pid %ld] client disconnected: %s:%u\<newline>''
                    [AInt (pid p1), AStr (fst cli_addr), AInt (int (snd cli_addr))],
                  b1)
          else session_reply p1 fd cli_addr b1 n))"

subsection \<open>What \<open>send_all\<close> does, call by call\<close>

declare send_all_loop.simps [simp del]
declare client_send_all_loop.simps [simp del]
declare recv_some.simps [simp del]
declare reap_children.simps [simp del]

text \<open>What the calls leave alone.\<close>

lemma sys_write_frame:
  "sys_write p fd buf count = Returns (n, p') \<Longrightarrow> \<exists>e t w. p' = p\<lparr>errno := e, tx := t, wire := w\<rparr>"
proof -
  assume a: "sys_write p fd buf count = Returns (n, p')"
  show ?thesis
  proof (cases "tx p fd")
    case Nil
    with a show ?thesis by (simp add: sys_write_def)
  next
    case (Cons ev es)
    show ?thesis
    proof (cases ev)
      case (WrErr e)
      with a Cons have "p' = p\<lparr>errno := e, tx := (tx p)(fd := es), wire := wire p\<rparr>"
        by (auto simp: sys_write_def)
      then show ?thesis by blast
    next
      case (WrRoom k)
      with a Cons have "p' = p\<lparr>errno := errno p, tx := (tx p)(fd := es),
          wire := (wire p)(fd := wire p fd @ take (min k count) buf)\<rparr>"
        by (auto simp: sys_write_def)
      then show ?thesis by blast
    next
      case (WrSignal s)
      with a Cons show ?thesis by (simp add: sys_write_def)
    qed
  qed
qed

lemma sys_write_killed:
  "sys_write p fd buf count = Killed s q \<Longrightarrow>
   \<exists>es. tx p fd = WrSignal s # es \<and> q = p\<lparr>tx := (tx p)(fd := es)\<rparr>"
  by (auto simp: sys_write_def split: list.splits wr_event.splits)

lemma send_all_loop_frame:
  "send_all_loop p fd buf len sent = Returns (r, p') \<Longrightarrow>
   \<exists>e t w. p' = p\<lparr>errno := e, tx := t, wire := w\<rparr>"
proof (induction p fd buf len sent rule: send_all_loop.induct)
  case (1 p fd buf len sent)
  show ?case
  proof (cases "sent < len")
    case False
    with "1.prems" have "p' = p\<lparr>errno := errno p, tx := tx p, wire := wire p\<rparr>"
      by (simp add: send_all_loop.simps [of p fd buf len sent])
    then show ?thesis by blast
  next
    case True
    with "1.prems" obtain n p1 where w: "sys_write p fd (drop sent buf) (len - sent) = Returns (n, p1)"
      by (auto simp: send_all_loop.simps [of p fd buf len sent] split: outcome.splits)
    from sys_write_frame [OF w] obtain e1 t1 w1 where p1: "p1 = p\<lparr>errno := e1, tx := t1, wire := w1\<rparr>"
      by blast
    have unf: "send_all_loop p fd buf len sent =
        (if n < 0 then (if errno p1 = EINTR then send_all_loop p1 fd buf len sent else Returns (- 1, p1))
         else if n = 0 then Returns (0, p1)
         else send_all_loop p1 fd buf len (sent + nat n))"
      using True w by (simp add: send_all_loop.simps [of p fd buf len sent])
    consider (retry) "n < 0" "errno p1 = EINTR" | (hard) "n < 0" "errno p1 \<noteq> EINTR"
      | (zero) "n = 0" | (more) "0 < n" by linarith
    then show ?thesis
    proof cases
      case retry
      with unf "1.prems" have "send_all_loop p1 fd buf len sent = Returns (r, p')" by simp
      from "1.IH"(1) [OF True w refl retry this]
      obtain e t w where "p' = p1\<lparr>errno := e, tx := t, wire := w\<rparr>" by blast
      then have "p' = p\<lparr>errno := e, tx := t, wire := w\<rparr>" by (simp add: p1)
      then show ?thesis by blast
    next
      case hard
      with unf "1.prems" have "p' = p1" by simp
      with p1 show ?thesis by blast
    next
      case zero
      with unf "1.prems" have "p' = p1" by simp
      with p1 show ?thesis by blast
    next
      case more
      with unf "1.prems" have "send_all_loop p1 fd buf len (sent + nat n) = Returns (r, p')" by simp
      from "1.IH"(2) [OF True w refl _ _ this] more
      obtain e t w where "p' = p1\<lparr>errno := e, tx := t, wire := w\<rparr>" by auto
      then have "p' = p\<lparr>errno := e, tx := t, wire := w\<rparr>" by (simp add: p1)
      then show ?thesis by blast
    qed
  qed
qed

lemma send_all_loop_killed_frame:
  "send_all_loop p fd buf len sent = Killed s q \<Longrightarrow>
   \<exists>e t w. q = p\<lparr>errno := e, tx := t, wire := w\<rparr>"
proof (induction p fd buf len sent rule: send_all_loop.induct)
  case (1 p fd buf len sent)
  from "1.prems" have lt: "sent < len"
    by (auto simp: send_all_loop.simps [of p fd buf len sent] split: if_splits)
  show ?case
  proof (cases "sys_write p fd (drop sent buf) (len - sent)")
    case Blocks
    with lt "1.prems" show ?thesis by (simp add: send_all_loop.simps [of p fd buf len sent])
  next
    case (Killed s' q')
    with lt "1.prems" have "q = q'" by (simp add: send_all_loop.simps [of p fd buf len sent])
    with sys_write_killed [OF Killed] have "q = p\<lparr>errno := errno p, tx := tx q, wire := wire p\<rparr>"
      by auto
    then show ?thesis by blast
  next
    case (Returns a)
    obtain n p1 where a: "a = (n, p1)" by (cases a) auto
    with Returns have w: "sys_write p fd (drop sent buf) (len - sent) = Returns (n, p1)" by simp
    from sys_write_frame [OF w] obtain e1 t1 w1 where p1: "p1 = p\<lparr>errno := e1, tx := t1, wire := w1\<rparr>"
      by blast
    have unf: "send_all_loop p fd buf len sent =
        (if n < 0 then (if errno p1 = EINTR then send_all_loop p1 fd buf len sent else Returns (- 1, p1))
         else if n = 0 then Returns (0, p1)
         else send_all_loop p1 fd buf len (sent + nat n))"
      using lt w by (simp add: send_all_loop.simps [of p fd buf len sent])
    consider (retry) "n < 0" "errno p1 = EINTR" | (hard) "n < 0" "errno p1 \<noteq> EINTR"
      | (zero) "n = 0" | (more) "0 < n" by linarith
    then show ?thesis
    proof cases
      case retry
      with unf "1.prems" have "send_all_loop p1 fd buf len sent = Killed s q" by simp
      from "1.IH"(1) [OF lt w refl retry this]
      obtain e t w where "q = p1\<lparr>errno := e, tx := t, wire := w\<rparr>" by blast
      then have "q = p\<lparr>errno := e, tx := t, wire := w\<rparr>" by (simp add: p1)
      then show ?thesis by blast
    next
      case hard
      with unf "1.prems" show ?thesis by simp
    next
      case zero
      with unf "1.prems" show ?thesis by simp
    next
      case more
      with unf "1.prems" have "send_all_loop p1 fd buf len (sent + nat n) = Killed s q" by simp
      from "1.IH"(2) [OF lt w refl _ _ this] more
      obtain e t w where "q = p1\<lparr>errno := e, tx := t, wire := w\<rparr>" by auto
      then have "q = p\<lparr>errno := e, tx := t, wire := w\<rparr>" by (simp add: p1)
      then show ?thesis by blast
    qed
  qed
qed

lemma send_all_loop_signal:
  "sent < len \<Longrightarrow> tx p fd = WrSignal s # es \<Longrightarrow>
   send_all_loop p fd buf len sent = Killed s (p\<lparr>tx := (tx p)(fd := es)\<rparr>)"
  by (simp add: send_all_loop.simps [of p fd buf len sent] sys_write_def)

lemma sys_write_cases:
  assumes "sys_write p fd buf count = Returns (n, p')"
  obtains (err) e es where "tx p fd = WrErr e # es" "n = - 1"
            "p' = p\<lparr>errno := e, tx := (tx p)(fd := es)\<rparr>"
        | (room) k es where "tx p fd = WrRoom k # es" "n = int (min k count)"
            "p' = p\<lparr>tx := (tx p)(fd := es), wire := (wire p)(fd := wire p fd @ take (min k count) buf)\<rparr>"
  using assms by (auto simp: sys_write_def split: list.splits wr_event.splits)

lemma send_all_loop_done: "\<not> sent < len \<Longrightarrow> send_all_loop p fd buf len sent = Returns (0, p)"
  by (simp add: send_all_loop.simps [of p fd buf len sent])

lemma send_all_loop_eintr:
  "sent < len \<Longrightarrow> tx p fd = WrErr EINTR # es \<Longrightarrow>
   send_all_loop p fd buf len sent =
     send_all_loop (p\<lparr>errno := EINTR, tx := (tx p)(fd := es)\<rparr>) fd buf len sent"
  by (simp add: send_all_loop.simps [of p fd buf len sent] sys_write_def)

lemma send_all_loop_hard:
  "sent < len \<Longrightarrow> tx p fd = WrErr e # es \<Longrightarrow> e \<noteq> EINTR \<Longrightarrow>
   send_all_loop p fd buf len sent = Returns (- 1, p\<lparr>errno := e, tx := (tx p)(fd := es)\<rparr>)"
  by (simp add: send_all_loop.simps [of p fd buf len sent] sys_write_def)

lemma send_all_loop_zero:
  "sent < len \<Longrightarrow> tx p fd = WrRoom 0 # es \<Longrightarrow>
   send_all_loop p fd buf len sent = Returns (0, p\<lparr>tx := (tx p)(fd := es)\<rparr>)"
  by (simp add: send_all_loop.simps [of p fd buf len sent] sys_write_def)

lemma send_all_loop_part:
  "sent < len \<Longrightarrow> tx p fd = WrRoom k # es \<Longrightarrow> 0 < k \<Longrightarrow>
   send_all_loop p fd buf len sent =
     send_all_loop (p\<lparr>tx := (tx p)(fd := es),
                      wire := (wire p)(fd := wire p fd @ take (min k (len - sent)) (drop sent buf))\<rparr>)
       fd buf len (sent + min k (len - sent))"
proof -
  assume a: "sent < len" "tx p fd = WrRoom k # es" "0 < k"
  then have "min k (len - sent) \<noteq> 0" by simp
  with a show ?thesis
    by (auto simp add: send_all_loop.simps [of p fd buf len sent] sys_write_def min_def)
qed

lemma send_all_loop_whole:
  "sent < len \<Longrightarrow> tx p fd = WrRoom k # es \<Longrightarrow> len - sent \<le> k \<Longrightarrow>
   send_all_loop p fd buf len sent =
     Returns (0, p\<lparr>tx := (tx p)(fd := es),
                 wire := (wire p)(fd := wire p fd @ take (len - sent) (drop sent buf))\<rparr>)"
proof -
  assume a: "sent < len" "tx p fd = WrRoom k # es" "len - sent \<le> k"
  then have k: "0 < k" and m: "min k (len - sent) = len - sent" by auto
  show ?thesis
    unfolding send_all_loop_part [OF a(1,2) k] m
    using a(1) by (simp add: send_all_loop_done)
qed

text \<open>
  What a call of \<open>send_all\<close> that returns has done: \<open>used\<close> are the results of the
  \<open>write\<close> calls it made, \<open>m\<close> the value of \<open>sent\<close> at the end.
\<close>

lemma send_all_loop_sound:
  "send_all_loop p fd buf len sent = Returns (r, p') \<Longrightarrow> sent \<le> len \<Longrightarrow>
   \<exists>used m. tx p fd = used @ tx p' fd \<and> sent \<le> m \<and> m \<le> len
     \<and> wire p' fd = wire p fd @ take (m - sent) (drop sent buf)
     \<and> (r = 0 \<or> r = - 1)
     \<and> (r = - 1 \<longleftrightarrow> (\<exists>e. e \<noteq> EINTR \<and> WrErr e \<in> set used))
     \<and> (r = 0 \<and> WrRoom 0 \<notin> set used \<longrightarrow> m = len)"
proof (induction p fd buf len sent rule: send_all_loop.induct)
  case (1 p fd buf len sent)
  let ?Q = "\<lambda>p sent used m. tx p fd = used @ tx p' fd \<and> sent \<le> m \<and> m \<le> len
     \<and> wire p' fd = wire p fd @ take (m - sent) (drop sent buf)
     \<and> (r = 0 \<or> r = - 1)
     \<and> (r = - 1 \<longleftrightarrow> (\<exists>e. e \<noteq> EINTR \<and> WrErr e \<in> set used))
     \<and> (r = 0 \<and> WrRoom 0 \<notin> set used \<longrightarrow> m = len)"
  show ?case
  proof (cases "sent < len")
    case False
    with "1.prems" have "p' = p" "r = 0" "sent = len"
      by (simp_all add: send_all_loop_done)
    then have "?Q p sent [] sent" by simp
    then show ?thesis by blast
  next
    case True
    with "1.prems" obtain n p1 where w: "sys_write p fd (drop sent buf) (len - sent) = Returns (n, p1)"
      by (auto simp: send_all_loop.simps [of p fd buf len sent] split: outcome.splits)
    have unf: "send_all_loop p fd buf len sent =
        (if n < 0 then (if errno p1 = EINTR then send_all_loop p1 fd buf len sent else Returns (- 1, p1))
         else if n = 0 then Returns (0, p1)
         else send_all_loop p1 fd buf len (sent + nat n))"
      using True w by (simp add: send_all_loop.simps [of p fd buf len sent])
    from w show ?thesis
    proof (cases rule: sys_write_cases)
      case (err e es)
      show ?thesis
      proof (cases "e = EINTR")
        case True
        with err unf "1.prems" have run: "send_all_loop p1 fd buf len sent = Returns (r, p')"
          by simp
        have neg: "n < 0" and ei: "errno p1 = EINTR" using err True by simp_all
        from "1.IH"(1) [OF \<open>sent < len\<close> w refl neg ei run "1.prems"(2)]
        obtain used m where q: "?Q p1 sent used m" by blast
        have "?Q p sent (WrErr e # used) m"
          using q err True by auto
        then show ?thesis by blast
      next
        case False
        with err unf "1.prems" have "p' = p1" "r = - 1" by simp_all
        then have "?Q p sent [WrErr e] sent"
          using err False True by simp
        then show ?thesis by blast
      qed
    next
      case (room k es)
      show ?thesis
      proof (cases "k = 0")
        case True
        with room unf "1.prems" have "p' = p1" "r = 0" by simp_all
        then have "?Q p sent [WrRoom k] sent"
          using room True \<open>sent < len\<close> by simp
        then show ?thesis by blast
      next
        case False
        define j where "j = min k (len - sent)"
        have j: "0 < j" "sent + j \<le> len" "n = int j"
          using False \<open>sent < len\<close> room by (simp_all add: j_def)
        with unf "1.prems" have run: "send_all_loop p1 fd buf len (sent + nat n) = Returns (r, p')"
          by simp
        have nn: "\<not> n < 0" "n \<noteq> 0" using j by simp_all
        have le: "sent + nat n \<le> len" using j by simp
        from "1.IH"(2) [OF \<open>sent < len\<close> w refl nn run le]
        obtain used m where q: "?Q p1 (sent + nat n) used m" by blast
        have tk: "take j (drop sent buf) @ take (m - (sent + j)) (drop (sent + j) buf)
                  = take (m - sent) (drop sent buf)"
        proof -
          have "m - sent = j + (m - (sent + j))" using q j by simp
          then show ?thesis by (simp add: take_add add.commute)
        qed
        have "?Q p sent (WrRoom k # used) m"
          using q room False j tk by (auto simp: j_def [symmetric])
        then show ?thesis by blast
      qed
    qed
  qed
qed

lemma client_send_all_loop_eq:
  "client_send_all_loop p fd buf len sent = send_all_loop p fd buf len sent"
proof (induction p fd buf len sent rule: send_all_loop.induct)
  case (1 p fd buf len sent)
  show ?case
    apply (subst client_send_all_loop.simps)
    apply (subst send_all_loop.simps)
    apply (insert "1.IH")
    apply (auto split: outcome.splits)
    done
qed

subsection \<open>The loop of \<open>handle_client_loop\<close>\<close>

text \<open>The input still to come on a descriptor: it shrinks with every read of 255 bytes.\<close>

fun ev_size :: "rd_event \<Rightarrow> nat" where
  "ev_size (RdErr e) = 1"
| "ev_size (RdData d) = Suc (length d)"

definition rx_size :: "proc \<Rightarrow> int \<Rightarrow> nat" where
  "rx_size p fd = sum_list (map ev_size (rx p fd))"

lemma sys_read_cases:
  assumes "sys_read p fd buf count = Some (n, buf', p')"
  obtains (err) e es where "rx p fd = RdErr e # es" "n = - 1" "buf' = buf"
            "p' = p\<lparr>errno := e, rx := (rx p)(fd := es)\<rparr>"
        | (all) d es where "rx p fd = RdData d # es" "length d \<le> count" "n = int (length d)"
            "buf' = d @ drop (length d) buf" "p' = p\<lparr>rx := (rx p)(fd := es)\<rparr>"
        | (part) d es where "rx p fd = RdData d # es" "count < length d" "n = int count"
            "buf' = take count d @ drop count buf"
            "p' = p\<lparr>rx := (rx p)(fd := RdData (drop count d) # es)\<rparr>"
  using assms by (auto simp: sys_read_def split: list.splits rd_event.splits if_splits)

lemma sys_read_shrinks:
  "sys_read p fd buf count = Some (n, buf', p') \<Longrightarrow> 0 < count \<Longrightarrow> rx_size p' fd < rx_size p fd"
  by (erule sys_read_cases) (auto simp: rx_size_def)

lemma send_all_rx: "send_all p fd buf len = Returns (r, p') \<Longrightarrow> rx p' = rx p"
  unfolding send_all_def by (drule send_all_loop_frame) auto

lemma send_all_killed_frame:
  "send_all p fd buf len = Killed s q \<Longrightarrow> \<exists>e t w. q = p\<lparr>errno := e, tx := t, wire := w\<rparr>"
  unfolding send_all_def by (rule send_all_loop_killed_frame)

lemma send_all_killed_rx: "send_all p fd buf len = Killed s q \<Longrightarrow> rx q = rx p"
  by (drule send_all_killed_frame) auto

lemma strlen_lit: "NUL \<notin> set s \<Longrightarrow> strlen (lit s) = Some (length s)"
  by (induction s) (auto simp: lit_def)

lemma strlen_bye: "strlen (lit ''Bye.\<newline>'') = Some 5"
  by (simp add: strlen_lit NUL_def)

lemma strlen_ack: "strlen (lit ''I got your message\<newline>'') = Some 19"
  by (simp add: strlen_lit NUL_def)

lemma session_reply_rx:
  "session_reply p fd cli_addr buffer n = Some (fl, p', buffer') \<Longrightarrow> rx p' = rx p"
  by (auto simp: session_reply_def printf_def perror_def die_def Let_def strlen_bye strlen_ack
      split: option.splits outcome.splits if_splits dest!: send_all_rx send_all_killed_rx)

lemma session_step_shrinks:
  "session_step p fd cli_addr buffer = Some (Continue, p', buffer') \<Longrightarrow>
   rx_size p' fd < rx_size p fd"
proof -
  assume a: "session_step p fd cli_addr buffer = Some (Continue, p', buffer')"
  then obtain b0 where b0: "memset buffer NUL 256 = Some b0"
    by (auto simp: session_step_def split: option.splits)
  with a obtain n b1 p1 where rd: "sys_read p fd b0 255 = Some (n, b1, p1)"
    by (auto simp: session_step_def split: option.splits)
  from sys_read_shrinks [OF rd] have sh: "rx_size p1 fd < rx_size p fd" by simp
  show ?thesis
  proof (cases "0 < n")
    case True
    with a b0 rd have "session_reply p1 fd cli_addr b1 n = Some (Continue, p', buffer')"
      by (simp add: session_step_def)
    from session_reply_rx [OF this] sh show ?thesis by (simp add: rx_size_def)
  next
    case False
    with a b0 rd have "p' = p1"
      by (auto simp: session_step_def die_def split: if_splits)
    with sh show ?thesis by simp
  qed
qed

text \<open>\<open>while (1)\<close> of \<open>handle_client_loop\<close>.\<close>

function session_loop :: "proc \<Rightarrow> int \<Rightarrow> string \<times> nat \<Rightarrow> string \<Rightarrow> (flow \<times> proc) option" where
  "session_loop p fd cli_addr buffer =
     (case session_step p fd cli_addr buffer of
        None \<Rightarrow> None
      | Some (fl, p', buffer') \<Rightarrow>
          if fl = Continue then session_loop p' fd cli_addr buffer'
          else if fl = Break then Some (Return, p')
          else Some (fl, p'))"
  by pat_completeness auto
termination
  by (relation "measure (\<lambda>(p, fd, cli_addr, buffer). rx_size p fd)")
     (auto dest: session_step_shrinks)

text \<open>
  \<open>handle_client_loop\<close>; \<open>buffer0\<close> is what the stack holds where \<open>char buffer[256]\<close> is
  allocated.
\<close>

definition handle_client_loop :: "proc \<Rightarrow> int \<Rightarrow> string \<times> nat \<Rightarrow> string \<Rightarrow> (flow \<times> proc) option" where
  "handle_client_loop p fd cli_addr buffer0 =
     session_loop
       (printf p ''[pid %ld] connected: %s:%u\<newline>''
          [AInt (pid p), AStr (fst cli_addr), AInt (int (snd cli_addr))])
       fd cli_addr buffer0"

section \<open>Connection Acceptor: the loop of \<open>main\<close> (server.c)\<close>

text \<open>
  The child's branch after \<open>fork\<close> (lines 179 to 184): \<open>close(sockfd);
  handle_client_loop(newsockfd, &cli_addr); close(newsockfd); _exit(0);\<close>
\<close>

definition child_branch ::
  "proc \<Rightarrow> int \<Rightarrow> int \<Rightarrow> string \<times> nat \<Rightarrow> string \<Rightarrow> (flow \<times> proc) option" where
  "child_branch p sockfd newsockfd cli_addr buffer0 =
     (case handle_client_loop (sys_close p sockfd) newsockfd cli_addr buffer0 of
        None \<Rightarrow> None
      | Some (fl, p') \<Rightarrow>
          if fl = Return then Some (Exit 0, sys_close p' newsockfd)
          else Some (fl, p'))"




declare session_loop.simps [simp del]





section \<open>Client Driver: the loop of \<open>main\<close> (client.c)\<close>

text \<open>
  \<open>fgets(buf, sz, stdin)\<close>: NULL (\<open>False\<close>) at end of input; otherwise the bytes up
  to and including the first newline, at most \<open>sz - 1\<close> of them, are stored with a
  NUL after them. The input is the bytes still to come, then end of input. The client
  calls it with \<open>sz = 255\<close>; for \<open>sz < 2\<close>, where no byte can be read, the model
  answers NULL.
\<close>

definition fgets_line :: "string \<Rightarrow> nat \<Rightarrow> string" where
  "fgets_line inp sz =
     take (sz - 1)
       (takeWhile (\<lambda>c. c \<noteq> LF) inp @ take 1 (dropWhile (\<lambda>c. c \<noteq> LF) inp))"

definition fgets :: "proc \<Rightarrow> string \<Rightarrow> nat \<Rightarrow> bool \<times> string \<times> proc" where
  "fgets p buf sz =
     (if stdin p = [] \<or> sz < 2 then (False, buf, p)
      else
        (let line = fgets_line (stdin p) sz
         in (True, line @ NUL # drop (length line + 1) buf,
             p\<lparr>stdin := drop (length line) (stdin p)\<rparr>)))"

text \<open>What follows a reply of \<open>n > 0\<close> bytes in one iteration (lines 122 to 128).\<close>

definition client_reply ::
  "proc \<Rightarrow> string \<Rightarrow> string \<Rightarrow> int \<Rightarrow> (flow \<times> proc \<times> string \<times> string) option" where
  "client_reply p buffer reply n =
     (case store_at reply n NUL of
        None \<Rightarrow> Some (Fault, p, buffer, reply)
      | Some reply' \<Rightarrow>
     (case c_string reply' of
        None \<Rightarrow> Some (Fault, p, buffer, reply')
      | Some txt \<Rightarrow>
     (let p1 = printf p ''%s'' [AStr txt] in
      case load_at reply' (n - 1) of
        None \<Rightarrow> Some (Fault, p1, buffer, reply')
      | Some c \<Rightarrow>
     (let p2 = (if c \<noteq> LF then printf p1 ''\<newline>'' [] else p1) in
      case client_is_quit_cmd buffer of
        None \<Rightarrow> Some (Fault, p2, buffer, reply')
      | Some quit \<Rightarrow> if quit then Some (Break, p2, buffer, reply')
                      else Some (Continue, p2, buffer, reply')))))"

text \<open>One iteration of \<open>while (1)\<close> in \<open>main\<close> of client.c (lines 101 to 129).\<close>

definition client_step ::
  "proc \<Rightarrow> int \<Rightarrow> string \<Rightarrow> string \<Rightarrow> (flow \<times> proc \<times> string \<times> string) option" where
  "client_step p sockfd buffer reply =
     (let p0 = printf p ''> '' [] in
      case memset buffer NUL 256 of
        None \<Rightarrow> Some (Fault, p0, buffer, reply)
      | Some b0 \<Rightarrow>
     (case fgets p0 b0 255 of
        (ok, b1, p1) \<Rightarrow>
          if \<not> ok then Some (Break, p1, b1, reply)
          else
     (case strlen b1 of
        None \<Rightarrow> Some (Fault, p1, b1, reply)
      | Some len \<Rightarrow>
     (case client_send_all p1 sockfd b1 len of
        Blocks \<Rightarrow> None
      | Killed s q \<Rightarrow> Some (Signalled s, q, b1, reply)
      | Returns (r, p2) \<Rightarrow>
          if r < 0 then
            (case die p2 ''ERROR writing to socket'' of (fl, p3) \<Rightarrow> Some (fl, p3, b1, reply))
          else
     (case memset reply NUL 256 of
        None \<Rightarrow> Some (Fault, p2, b1, reply)
      | Some r0 \<Rightarrow>
     (case recv_some p2 sockfd r0 255 of
        None \<Rightarrow> None
      | Some (n, r1, p3) \<Rightarrow>
          if n < 0 then
            (case die p3 ''ERROR reading from socket'' of (fl, p4) \<Rightarrow> Some (fl, p4, b1, r1))
          else if n = 0 then
            Some (Break, printf p3 ''(server closed connection)\<newline>'' [], b1, r1)
          else client_reply p3 b1 r1 n))))))"

lemma fgets_consumes:
  "fgets p buf sz = (True, buf', p') \<Longrightarrow> length (stdin p') < length (stdin p)"
proof -
  assume a: "fgets p buf sz = (True, buf', p')"
  then have ne: "stdin p \<noteq> []" and sz: "2 \<le> sz"
    by (auto simp: fgets_def split: if_splits)
  let ?l = "fgets_line (stdin p) sz"
  obtain c cs where cs: "stdin p = c # cs" using ne by (cases "stdin p") auto
  have "?l \<noteq> []"
    using sz by (cases "c = LF") (auto simp: fgets_line_def cs take_Cons' )
  moreover from a ne sz have "stdin p' = drop (length ?l) (stdin p)"
    by (auto simp: fgets_def Let_def)
  ultimately show ?thesis using ne by simp
qed

lemma sys_read_frame:
  "sys_read p fd buf count = Some (n, buf', p') \<Longrightarrow> \<exists>e r. p' = p\<lparr>errno := e, rx := r\<rparr>"
proof (erule sys_read_cases)
  fix e es assume "p' = p\<lparr>errno := e, rx := (rx p)(fd := es)\<rparr>"
  then show ?thesis by blast
next
  fix d es assume "p' = p\<lparr>rx := (rx p)(fd := es)\<rparr>"
  then have "p' = p\<lparr>errno := errno p, rx := (rx p)(fd := es)\<rparr>" by simp
  then show ?thesis by blast
next
  fix d es assume "p' = p\<lparr>rx := (rx p)(fd := RdData (drop count d) # es)\<rparr>"
  then have "p' = p\<lparr>errno := errno p, rx := (rx p)(fd := RdData (drop count d) # es)\<rparr>" by simp
  then show ?thesis by blast
qed

lemma recv_some_frame:
  "recv_some p fd buf cap = Some (n, buf', p') \<Longrightarrow> \<exists>e r. p' = p\<lparr>errno := e, rx := r\<rparr>"
proof (induction p fd buf cap rule: recv_some.induct)
  case (1 p fd buf cap)
  from "1.prems" obtain n1 b1 p1 where rd: "sys_read p fd buf cap = Some (n1, b1, p1)"
    by (auto simp: recv_some.simps [of p fd buf cap] split: option.splits)
  from sys_read_frame [OF rd] obtain e1 r1 where p1: "p1 = p\<lparr>errno := e1, rx := r1\<rparr>" by blast
  show ?case
  proof (cases "n1 < 0 \<and> errno p1 = EINTR")
    case True
    with rd "1.prems" have "recv_some p1 fd b1 cap = Some (n, buf', p')"
      by (simp add: recv_some.simps [of p fd buf cap])
    from "1.IH" [OF rd refl refl True this] obtain e r where "p' = p1\<lparr>errno := e, rx := r\<rparr>"
      by blast
    then have "p' = p\<lparr>errno := e, rx := r\<rparr>" by (simp add: p1)
    then show ?thesis by blast
  next
    case False
    with rd "1.prems" have "p' = p1"
      by (auto simp: recv_some.simps [of p fd buf cap])
    with p1 show ?thesis by blast
  qed
qed

lemma client_send_all_eq: "client_send_all p fd buf len = send_all p fd buf len"
  by (simp add: client_send_all_def send_all_def client_send_all_loop_eq)

lemma send_all_frame:
  "send_all p fd buf len = Returns (r, p') \<Longrightarrow> \<exists>e t w. p' = p\<lparr>errno := e, tx := t, wire := w\<rparr>"
  unfolding send_all_def by (rule send_all_loop_frame)

lemma client_reply_stdin:
  "client_reply p buffer reply n = Some (fl, p', b', r') \<Longrightarrow> stdin p' = stdin p"
  by (auto simp: client_reply_def printf_def Let_def split: option.splits if_splits)

lemma client_step_consumes:
  "client_step p sockfd buffer reply = Some (Continue, p', b', r') \<Longrightarrow>
   length (stdin p') < length (stdin p)"
proof -
  assume a: "client_step p sockfd buffer reply = Some (Continue, p', b', r')"
  let ?p0 = "printf p ''> '' []"
  from a obtain b0 where m: "memset buffer NUL 256 = Some b0"
    by (auto simp: client_step_def Let_def split: option.splits outcome.splits)
  obtain ok b1 p1 where fg: "fgets ?p0 b0 255 = (ok, b1, p1)" by (cases "fgets ?p0 b0 255") auto
  with a m have ok: "ok" by (cases ok) (auto simp: client_step_def Let_def)
  from fgets_consumes [of ?p0 b0 255 b1 p1] fg ok
  have c1: "length (stdin p1) < length (stdin p)" by (simp add: printf_def)
  from a m fg ok obtain len where sl: "strlen b1 = Some len"
    by (auto simp: client_step_def Let_def split: option.splits outcome.splits)
  from a m fg ok sl obtain r p2 where sa: "send_all p1 sockfd b1 len = Returns (r, p2)"
    by (auto simp: client_step_def Let_def client_send_all_eq split: option.splits outcome.splits)
  from send_all_frame [OF sa] have c2: "stdin p2 = stdin p1" by auto
  from a m fg ok sl sa have rn: "\<not> r < 0"
    by (auto simp: client_step_def Let_def client_send_all_eq die_def split: option.splits outcome.splits)
  from a m fg ok sl sa rn obtain r0 where m2: "memset reply NUL 256 = Some r0"
    by (auto simp: client_step_def Let_def client_send_all_eq split: option.splits outcome.splits)
  from a m fg ok sl sa rn m2 obtain n r1 p3 where rs: "recv_some p2 sockfd r0 255 = Some (n, r1, p3)"
    by (auto simp: client_step_def Let_def client_send_all_eq split: option.splits outcome.splits)
  from recv_some_frame [OF rs] have c3: "stdin p3 = stdin p2" by auto
  from a m fg ok sl sa rn m2 rs have "client_reply p3 b1 r1 n = Some (Continue, p', b', r')"
    by (auto simp: client_step_def Let_def client_send_all_eq die_def split: if_splits)
  from client_reply_stdin [OF this] c1 c2 c3 show ?thesis by simp
qed

function client_loop :: "proc \<Rightarrow> int \<Rightarrow> string \<Rightarrow> string \<Rightarrow> (flow \<times> proc) option" where
  "client_loop p sockfd buffer reply =
     (case client_step p sockfd buffer reply of
        None \<Rightarrow> None
      | Some (fl, p', buffer', reply') \<Rightarrow>
          if fl = Continue then client_loop p' sockfd buffer' reply'
          else if fl = Break then Some (Return, p')
          else Some (fl, p'))"
  by pat_completeness auto
termination
  by (relation "measure (\<lambda>(p, sockfd, buffer, reply). length (stdin p))")
     (auto dest: client_step_consumes)

text \<open>
  \<open>main\<close> of client.c from the connected socket on (lines 99 to 132): the loop, then
  \<open>close(sockfd); return 0;\<close>
\<close>

definition client_session :: "proc \<Rightarrow> int \<Rightarrow> string \<Rightarrow> string \<Rightarrow> (flow \<times> proc) option" where
  "client_session p sockfd buffer0 reply0 =
     (case client_loop
             (printf p ''Connected. Type messages; 'quit' or 'exit' to close.\<newline>'' [])
             sockfd buffer0 reply0 of
        None \<Rightarrow> None
      | Some (fl, p') \<Rightarrow>
          if fl = Return then Some (Exit 0, sys_close p' sockfd)
          else Some (fl, p'))"

section \<open>Reliable I/O: the contract of \<open>send_all\<close>\<close>

text \<open>A process with nothing open and nothing scripted, to build examples from.\<close>

definition idle :: proc where
  "idle = \<lparr>pid = 100, errno = 0, fds = {}, rx = (\<lambda>fd. []), tx = (\<lambda>fd. []),
           wire = (\<lambda>fd. []), stdin = [], stdout = [], stderr = [],
           accepts = [], forks = [], children = []\<rparr>"

lemma send_all_loop_killed_wire:
  "send_all_loop p fd buf len sent = Killed s q \<Longrightarrow> sent \<le> len \<Longrightarrow>
   \<exists>m. sent \<le> m \<and> m \<le> len \<and> wire q fd = wire p fd @ take (m - sent) (drop sent buf)"
proof (induction p fd buf len sent rule: send_all_loop.induct)
  case (1 p fd buf len sent)
  from "1.prems"(1) have lt: "sent < len"
    by (auto simp: send_all_loop.simps [of p fd buf len sent] split: if_splits)
  show ?case
  proof (cases "sys_write p fd (drop sent buf) (len - sent)")
    case Blocks
    with lt "1.prems" show ?thesis by (simp add: send_all_loop.simps [of p fd buf len sent])
  next
    case (Killed s' q')
    with lt "1.prems" have "q = q'" by (simp add: send_all_loop.simps [of p fd buf len sent])
    with sys_write_killed [OF Killed] have "wire q fd = wire p fd @ take (sent - sent) (drop sent buf)"
      by auto
    with lt show ?thesis by (intro exI [of _ sent]) simp
  next
    case (Returns a)
    obtain n p1 where a: "a = (n, p1)" by (cases a) auto
    with Returns have w: "sys_write p fd (drop sent buf) (len - sent) = Returns (n, p1)" by simp
    have unf: "send_all_loop p fd buf len sent =
        (if n < 0 then (if errno p1 = EINTR then send_all_loop p1 fd buf len sent else Returns (- 1, p1))
         else if n = 0 then Returns (0, p1)
         else send_all_loop p1 fd buf len (sent + nat n))"
      using lt w by (simp add: send_all_loop.simps [of p fd buf len sent])
    from w show ?thesis
    proof (cases rule: sys_write_cases)
      case (err e es)
      with unf "1.prems" have ei: "errno p1 = EINTR" and neg: "n < 0"
        and run: "send_all_loop p1 fd buf len sent = Killed s q"
        by (auto split: if_splits)
      from "1.IH"(1) [OF lt w refl neg ei run "1.prems"(2)] err show ?thesis by simp
    next
      case (room k es)
      define j where "j = min k (len - sent)"
      have nj: "n = int j" using room by (simp add: j_def)
      from unf "1.prems" nj have jpos: "0 < j" by (auto split: if_splits)
      have le: "sent + nat n \<le> len" using nj lt by (simp add: j_def)
      from unf "1.prems" nj jpos have run: "send_all_loop p1 fd buf len (sent + nat n) = Killed s q"
        by simp
      have nn: "\<not> n < 0" "n \<noteq> 0" using nj jpos by simp_all
      from "1.IH"(2) [OF lt w refl nn run le]
      obtain m where m: "sent + j \<le> m" "m \<le> len"
        "wire q fd = wire p1 fd @ take (m - (sent + j)) (drop (sent + j) buf)"
        using nj by auto
      have tk: "take j (drop sent buf) @ take (m - (sent + j)) (drop (sent + j) buf)
                  = take (m - sent) (drop sent buf)"
      proof -
        have "m - sent = j + (m - (sent + j))" using m(1) by simp
        then show ?thesis by (simp add: take_add add.commute)
      qed
      have "wire q fd = wire p fd @ take (m - sent) (drop sent buf)"
        using m(3) room tk by (simp add: j_def [symmetric])
      with m(1,2) show ?thesis by (intro exI [of _ m]) simp
    qed
  qed
qed

lemma send_all_killed_wire:
  assumes "send_all p fd buf len = Killed s q"
  shows "\<exists>m\<le>len. wire q fd = wire p fd @ take m buf"
  using send_all_loop_killed_wire [of p fd buf len 0 s q] assms by (auto simp: send_all_def)

lemma send_all_signal:
  assumes "tx p fd = WrSignal s # ws" and "0 < len"
  shows "send_all p fd buf len = Killed s (p\<lparr>tx := (tx p)(fd := ws)\<rparr>)"
  using send_all_loop_signal [OF assms(2) assms(1)] by (simp add: send_all_def)

lemma send_all_sound:
  assumes "send_all p fd buf len = Returns (r, p')"
  shows "\<exists>used m. tx p fd = used @ tx p' fd \<and> m \<le> len
     \<and> wire p' fd = wire p fd @ take m buf
     \<and> (r = 0 \<or> r = - 1)
     \<and> (r = - 1 \<longleftrightarrow> (\<exists>e. e \<noteq> EINTR \<and> WrErr e \<in> set used))
     \<and> (r = 0 \<and> WrRoom 0 \<notin> set used \<longrightarrow> m = len)"
  using send_all_loop_sound [of p fd buf len 0 r p'] assms by (simp add: send_all_def)

text \<open>
  C4. \<open>send_all\<close>, in server.c and in client.c: a \<open>write\<close> interrupted by a signal
  (EINTR) is retried; any other error of \<open>write\<close> makes it return -1 at once, and it
  returns -1 in no other case; a \<open>write\<close> that reports 0 bytes makes it stop and return
  0 with the rest unsent, the following writes never made; a \<open>write\<close> that takes all the
  remaining bytes completes it with 0; and whenever it returns 0 without a \<open>write\<close>
  having reported 0 bytes, every byte of the buffer has been written.
\<close>

theorem send_all_contract:
  "(sent < len \<and> tx p fd = WrErr EINTR # es \<longrightarrow>
      send_all_loop p fd buf len sent =
        send_all_loop (p\<lparr>errno := EINTR, tx := (tx p)(fd := es)\<rparr>) fd buf len sent)
   \<and> (sent < len \<and> tx p fd = WrErr e # es \<and> e \<noteq> EINTR \<longrightarrow>
      send_all_loop p fd buf len sent = Returns (- 1, p\<lparr>errno := e, tx := (tx p)(fd := es)\<rparr>))
   \<and> (sent < len \<and> tx p fd = WrRoom 0 # es \<longrightarrow>
      send_all_loop p fd buf len sent = Returns (0, p\<lparr>tx := (tx p)(fd := es)\<rparr>))
   \<and> (sent < len \<and> tx p fd = WrRoom k # es \<and> len - sent \<le> k \<longrightarrow>
      send_all_loop p fd buf len sent =
        Returns (0, p\<lparr>tx := (tx p)(fd := es),
                    wire := (wire p)(fd := wire p fd @ take (len - sent) (drop sent buf))\<rparr>))
   \<and> (send_all p fd buf len = Returns (r, p') \<longrightarrow>
      (\<exists>used m. tx p fd = used @ tx p' fd \<and> m \<le> len
         \<and> wire p' fd = wire p fd @ take m buf
         \<and> (r = 0 \<or> r = - 1)
         \<and> (r = - 1 \<longleftrightarrow> (\<exists>e. e \<noteq> EINTR \<and> WrErr e \<in> set used))
         \<and> (r = 0 \<and> WrRoom 0 \<notin> set used \<longrightarrow> m = len)))
   \<and> client_send_all_loop p fd buf len sent = send_all_loop p fd buf len sent
   \<and> client_send_all p fd buf len = send_all p fd buf len"
proof -
  have retry: "sent < len \<and> tx p fd = WrErr EINTR # es \<longrightarrow>
      send_all_loop p fd buf len sent =
        send_all_loop (p\<lparr>errno := EINTR, tx := (tx p)(fd := es)\<rparr>) fd buf len sent"
    using send_all_loop_eintr by blast
  have hard: "sent < len \<and> tx p fd = WrErr e # es \<and> e \<noteq> EINTR \<longrightarrow>
      send_all_loop p fd buf len sent = Returns (- 1, p\<lparr>errno := e, tx := (tx p)(fd := es)\<rparr>)"
    using send_all_loop_hard by blast
  have zero: "sent < len \<and> tx p fd = WrRoom 0 # es \<longrightarrow>
      send_all_loop p fd buf len sent = Returns (0, p\<lparr>tx := (tx p)(fd := es)\<rparr>)"
    using send_all_loop_zero by blast
  have whole: "sent < len \<and> tx p fd = WrRoom k # es \<and> len - sent \<le> k \<longrightarrow>
      send_all_loop p fd buf len sent =
        Returns (0, p\<lparr>tx := (tx p)(fd := es),
                    wire := (wire p)(fd := wire p fd @ take (len - sent) (drop sent buf))\<rparr>)"
    using send_all_loop_whole by blast
  have sound: "send_all p fd buf len = Returns (r, p') \<longrightarrow>
      (\<exists>used m. tx p fd = used @ tx p' fd \<and> m \<le> len
         \<and> wire p' fd = wire p fd @ take m buf
         \<and> (r = 0 \<or> r = - 1)
         \<and> (r = - 1 \<longleftrightarrow> (\<exists>e. e \<noteq> EINTR \<and> WrErr e \<in> set used))
         \<and> (r = 0 \<and> WrRoom 0 \<notin> set used \<longrightarrow> m = len))"
    using send_all_sound by blast
  from retry hard zero whole sound client_send_all_loop_eq client_send_all_eq
  show ?thesis by (intro conjI)
qed

theorem send_all_contract_witness:
  "send_all_loop (idle\<lparr>tx := (\<lambda>fd. [WrErr 32])\<rparr>) 4 ''Bye.\<newline>'' 5 0 =
     Returns (- 1, idle\<lparr>tx := (\<lambda>fd. [WrErr 32]), errno := 32, tx := (\<lambda>fd. [WrErr 32])(4 := [])\<rparr>)
   \<and> send_all_loop (idle\<lparr>tx := (\<lambda>fd. [WrRoom 0, WrRoom 9])\<rparr>) 4 ''Bye.\<newline>'' 5 0 =
     Returns (0, idle\<lparr>tx := (\<lambda>fd. [WrRoom 0, WrRoom 9]), tx := (\<lambda>fd. [WrRoom 0, WrRoom 9])(4 := [WrRoom 9])\<rparr>)
   \<and> send_all_loop (idle\<lparr>tx := (\<lambda>fd. [WrErr 4, WrRoom 9])\<rparr>) 4 ''Bye.\<newline>'' 5 0 =
     send_all_loop (idle\<lparr>tx := (\<lambda>fd. [WrErr 4, WrRoom 9]), errno := 4,
                         tx := (\<lambda>fd. [WrErr 4, WrRoom 9])(4 := [WrRoom 9])\<rparr>) 4 ''Bye.\<newline>'' 5 0"
proof -
  have a: "send_all_loop (idle\<lparr>tx := (\<lambda>fd. [WrErr 32])\<rparr>) 4 ''Bye.\<newline>'' 5 0 =
     Returns (- 1, idle\<lparr>tx := (\<lambda>fd. [WrErr 32]), errno := 32, tx := (\<lambda>fd. [WrErr 32])(4 := [])\<rparr>)"
    using send_all_contract [where p = "idle\<lparr>tx := (\<lambda>fd. [WrErr 32])\<rparr>" and fd = 4 and sent = 0
        and len = 5 and e = 32 and es = "[]" and buf = "''Bye.\<newline>''"]
    by (simp add: EINTR_def)
  have b: "send_all_loop (idle\<lparr>tx := (\<lambda>fd. [WrRoom 0, WrRoom 9])\<rparr>) 4 ''Bye.\<newline>'' 5 0 =
     Returns (0, idle\<lparr>tx := (\<lambda>fd. [WrRoom 0, WrRoom 9]), tx := (\<lambda>fd. [WrRoom 0, WrRoom 9])(4 := [WrRoom 9])\<rparr>)"
    using send_all_contract [where p = "idle\<lparr>tx := (\<lambda>fd. [WrRoom 0, WrRoom 9])\<rparr>" and fd = 4
        and sent = 0 and len = 5 and es = "[WrRoom 9]" and buf = "''Bye.\<newline>''"]
    by simp
  have c: "send_all_loop (idle\<lparr>tx := (\<lambda>fd. [WrErr 4, WrRoom 9])\<rparr>) 4 ''Bye.\<newline>'' 5 0 =
     send_all_loop (idle\<lparr>tx := (\<lambda>fd. [WrErr 4, WrRoom 9]), errno := 4,
                         tx := (\<lambda>fd. [WrErr 4, WrRoom 9])(4 := [WrRoom 9])\<rparr>) 4 ''Bye.\<newline>'' 5 0"
    using send_all_contract [where p = "idle\<lparr>tx := (\<lambda>fd. [WrErr 4, WrRoom 9])\<rparr>" and fd = 4
        and sent = 0 and len = 5 and es = "[WrRoom 9]" and buf = "''Bye.\<newline>''"]
    by (simp add: EINTR_def)
  from a b c show ?thesis by (intro conjI)
qed

section \<open>The reaper and the acceptor: proofs\<close>

lemma filter_remove1_other: "\<not> P z \<Longrightarrow> filter P (remove1 z xs) = filter P xs"
  by (induction xs) auto

lemma reap_children_all:
  "\<forall>c\<in>set (children p). 0 < fst c \<Longrightarrow>
   \<exists>p'. reap_children p signo = Some p' \<and> filter snd (children p') = []
     \<and> filter (\<lambda>c. \<not> snd c) (children p') = filter (\<lambda>c. \<not> snd c) (children p)"
proof (induction p signo rule: reap_children.induct)
  case (1 p signo)
  show ?case
  proof (cases "filter snd (children p)")
    case Nil
    then have "sys_waitpid p True =
        (if children p = [] then Some (- 1, p\<lparr>errno := ECHILD\<rparr>) else Some (0, p))"
      by (simp add: sys_waitpid_def)
    then have "reap_children p signo =
        Some (if children p = [] then p\<lparr>errno := ECHILD\<rparr> else p)"
      by (simp add: reap_children.simps [of p signo])
    with Nil show ?thesis by auto
  next
    case (Cons z zs)
    let ?p1 = "p\<lparr>children := remove1 z (children p)\<rparr>"
    from Cons have "z \<in> set (filter snd (children p))" by simp
    then have zin: "z \<in> set (children p)" and zt: "snd z" by simp_all
    from zin "1.prems" have pos: "0 < fst z" by blast
    have w: "sys_waitpid p True = Some (fst z, ?p1)"
      using Cons by (simp add: sys_waitpid_def)
    have pre: "\<forall>c\<in>set (children ?p1). 0 < fst c"
      using "1.prems" by (auto dest: notin_set_remove1)
    from "1.IH" [OF w refl pos pre] obtain p' where
      r: "reap_children ?p1 signo = Some p'" "filter snd (children p') = []"
         "filter (\<lambda>c. \<not> snd c) (children p') = filter (\<lambda>c. \<not> snd c) (children ?p1)"
      by blast
    have "reap_children p signo = Some p'"
      using w pos r(1) by (simp add: reap_children.simps [of p signo])
    moreover have "filter (\<lambda>c. \<not> snd c) (children ?p1) = filter (\<lambda>c. \<not> snd c) (children p)"
      using zt by (simp add: filter_remove1_other)
    ultimately show ?thesis using r by simp
  qed
qed

text \<open>
  C7. One run of \<open>reap_children\<close> returns (it never blocks, though children may still
  be running), and when it returns no terminated child is left unreaped, however many
  there were; the running children are left as they were. Pids of children are
  positive.
\<close>

theorem reap_children_leaves_no_zombie:
  assumes "\<forall>c\<in>set (children p). 0 < fst c"
  shows "\<exists>p'. reap_children p signo = Some p'
     \<and> filter snd (children p') = []
     \<and> filter (\<lambda>c. \<not> snd c) (children p') = filter (\<lambda>c. \<not> snd c) (children p)"
  using assms by (rule reap_children_all)

theorem reap_children_leaves_no_zombie_witness:
  "(\<exists>p'. reap_children (idle\<lparr>children := [(11, True), (12, False), (13, True), (14, True)]\<rparr>) 17 = Some p'
     \<and> filter snd (children p') = []
     \<and> filter (\<lambda>c. \<not> snd c) (children p') = [(12, False)])"
proof -
  let ?p = "idle\<lparr>children := [(11, True), (12, False), (13, True), (14, True)]\<rparr>"
  have pos: "\<forall>c\<in>set (children ?p). 0 < fst c" by simp
  from reap_children_leaves_no_zombie [OF pos, of 17] show ?thesis by simp
qed







section \<open>The session handler: proofs\<close>

text \<open>
  The 256-byte buffer after \<open>memset\<close> and a \<open>read\<close> of at most 255 bytes that found
  the bytes \<open>d\<close> queued, and the input left queued by that read.
\<close>

definition received :: "string \<Rightarrow> string" where
  "received d = take 255 d @ replicate (256 - min (length d) 255) NUL"

definition unread :: "string \<Rightarrow> rd_event list \<Rightarrow> rd_event list" where
  "unread d es = (if length d \<le> 255 then es else RdData (drop 255 d) # es)"

text \<open>The process after that read and the log line for the message (lines 79 to 103).\<close>

definition after_recv :: "proc \<Rightarrow> int \<Rightarrow> string \<times> nat \<Rightarrow> string \<Rightarrow> rd_event list \<Rightarrow> proc" where
  "after_recv p fd cli_addr d es =
     (let p1 = p\<lparr>rx := (rx p)(fd := unread d es)\<rparr>;
          p2 = printf p1 ''[pid %ld] msg from %s:%u -> %s''
                 [AInt (pid p), AStr (fst cli_addr), AInt (int (snd cli_addr)),
                  AStr (cstr (take 255 d))]
      in if last (take 255 d) \<noteq> LF then printf p2 ''\<newline>'' [] else p2)"

lemma memset_buffer: "length buffer = 256 \<Longrightarrow> memset buffer NUL 256 = Some (replicate 256 NUL)"
  by (simp add: memset_def)

lemma sys_read_data:
  assumes "rx p fd = RdData d # es"
  shows "sys_read p fd (replicate 256 NUL) 255 =
     Some (int (min (length d) 255), received d, p\<lparr>rx := (rx p)(fd := unread d es)\<rparr>)"
proof (cases "length d \<le> 255")
  case True
  then have "min (length d) 255 = length d" "take 255 d = d" by simp_all
  with True assms show ?thesis
    by (simp add: sys_read_def received_def unread_def)
next
  case False
  then have "min (length d) 255 = 255" by simp
  with False assms show ?thesis
    by (simp add: sys_read_def received_def unread_def)
qed

lemma takeWhile_stop: "\<not> P y \<Longrightarrow> takeWhile P (xs @ y # ys) = takeWhile P xs"
  by (induction xs) auto

lemma received_split:
  "\<exists>r. received d = take 255 d @ NUL # r \<and> length r = 255 - min (length d) 255"
proof -
  have "256 - min (length d) 255 = Suc (255 - min (length d) 255)" by simp
  then have "received d = take 255 d @ NUL # replicate (255 - min (length d) 255) NUL"
    by (simp add: received_def)
  then show ?thesis by auto
qed

lemma length_received: "length (received d) = 256"
  by (simp add: received_def)

lemma store_received:
  "store (received d) (min (length d) 255) NUL = Some (received d)"
proof -
  obtain r where r: "received d = take 255 d @ NUL # r" using received_split by blast
  have "length (take 255 d) = min (length d) 255" by simp
  then show ?thesis
    unfolding r store_def by (simp add: list_update_append del: length_take)
qed

lemma store_at_nat: "store_at a (int i) c = store a i c"
  by (simp add: store_at_def store_def)

lemma load_at_pred: "0 < i \<Longrightarrow> load_at a (int i - 1) = load a (i - 1)"
  by (cases i) (simp_all add: load_at_def load_def)

lemma cstr_received: "cstr (received d) = cstr (take 255 d)"
proof -
  obtain r where r: "received d = take 255 d @ NUL # r" using received_split by blast
  show ?thesis unfolding r cstr_def by (rule takeWhile_stop) simp
qed

lemma cstr_lit: "cstr (lit s) = cstr s"
  unfolding lit_def cstr_def by (rule takeWhile_stop) simp

lemma NUL_in_received: "NUL \<in> set (received d)"
  using received_split [of d] by auto

lemma c_string_received: "c_string (received d) = Some (cstr (take 255 d))"
  by (simp add: c_string_def NUL_in_received cstr_received)

lemma load_last: "t \<noteq> [] \<Longrightarrow> load (t @ r) (length t - 1) = Some (last t)"
  by (cases t rule: rev_cases) (simp_all add: load_def nth_append)

lemma load_received:
  assumes "d \<noteq> []"
  shows "load (received d) (min (length d) 255 - 1) = Some (last (take 255 d))"
proof -
  obtain r where r: "received d = take 255 d @ NUL # r" using received_split by blast
  define t where "t = take 255 d"
  have ne: "t \<noteq> []" using assms by (simp add: t_def)
  have len: "min (length d) 255 = length t" by (simp add: t_def)
  show ?thesis
    unfolding r len t_def [symmetric] using ne by (rule load_last)
qed

lemma spec_is_quit_cstr: "cstr a = cstr b \<Longrightarrow> spec_is_quit a = spec_is_quit b"
  by (simp add: spec_is_quit_def spec_token_def)

lemma is_quit_cmd_received:
  "is_quit_cmd (received d) = Some (spec_is_quit (lit (take 255 d)))"
proof -
  have "cstr (received d) = cstr (lit (take 255 d))"
    by (simp add: cstr_received cstr_lit)
  then have "spec_is_quit (received d) = spec_is_quit (lit (take 255 d))"
    by (rule spec_is_quit_cstr)
  then show ?thesis by (simp add: is_quit_cmd_spec NUL_in_received)
qed

lemma is_quit_cmd_lit: "is_quit_cmd (lit s) = Some (spec_is_quit (lit s))"
  by (simp add: is_quit_cmd_spec NUL_in_lit)

text \<open>One iteration that receives data, executed symbolically.\<close>

lemma session_reply_received:
  assumes "d \<noteq> []"
  shows "session_reply (p\<lparr>rx := (rx p)(fd := unread d es)\<rparr>) fd cli_addr (received d)
           (int (min (length d) 255)) =
     (if spec_is_quit (lit (take 255 d)) then
        (case send_all (after_recv p fd cli_addr d es) fd (lit ''Bye.\<newline>'') 5 of
           Blocks \<Rightarrow> None
         | Killed s q \<Rightarrow> Some (Signalled s, q, received d)
         | Returns (r, p3) \<Rightarrow>
             Some (Break,
                   printf (if r < 0 then perror p3 ''ERROR writing to socket'' else p3)
                     ''[pid %ld] client disconnected (quit/exit): %s:%u\<newline>''
                     [AInt (pid p3), AStr (fst cli_addr), AInt (int (snd cli_addr))],
                   received d))
      else
        (case send_all (after_recv p fd cli_addr d es) fd (lit ''I got your message\<newline>'') 19 of
           Blocks \<Rightarrow> None
         | Killed s q \<Rightarrow> Some (Signalled s, q, received d)
         | Returns (r, p3) \<Rightarrow>
             if r < 0 then Some (Exit 1, perror p3 ''ERROR writing to socket'', received d)
             else Some (Continue, p3, received d)))"
proof -
  have pos: "0 < min (length d) 255" using assms by simp
  show ?thesis
    by (simp only: session_reply_def store_at_nat load_at_pred [OF pos] store_received
      c_string_received load_received [OF assms] is_quit_cmd_received strlen_bye strlen_ack
      option.case after_recv_def Let_def die_def prod.case fst_conv snd_conv)
       (simp add: printf_def split: outcome.splits)
qed

lemma session_step_data:
  assumes "length buffer = 256" and "rx p fd = RdData d # es" and "d \<noteq> []"
  shows "session_step p fd cli_addr buffer =
     (if spec_is_quit (lit (take 255 d)) then
        (case send_all (after_recv p fd cli_addr d es) fd (lit ''Bye.\<newline>'') 5 of
           Blocks \<Rightarrow> None
         | Killed s q \<Rightarrow> Some (Signalled s, q, received d)
         | Returns (r, p3) \<Rightarrow>
             Some (Break,
                   printf (if r < 0 then perror p3 ''ERROR writing to socket'' else p3)
                     ''[pid %ld] client disconnected (quit/exit): %s:%u\<newline>''
                     [AInt (pid p3), AStr (fst cli_addr), AInt (int (snd cli_addr))],
                   received d))
      else
        (case send_all (after_recv p fd cli_addr d es) fd (lit ''I got your message\<newline>'') 19 of
           Blocks \<Rightarrow> None
         | Killed s q \<Rightarrow> Some (Signalled s, q, received d)
         | Returns (r, p3) \<Rightarrow>
             if r < 0 then Some (Exit 1, perror p3 ''ERROR writing to socket'', received d)
             else Some (Continue, p3, received d)))"
proof -
  define n where "n = min (length d) 255"
  have pos: "0 < n" using assms(3) by (simp add: n_def)
  have rd: "sys_read p fd (replicate 256 NUL) 255 =
      Some (int n, received d, p\<lparr>rx := (rx p)(fd := unread d es)\<rparr>)"
    unfolding n_def by (rule sys_read_data [OF assms(2)])
  have "session_step p fd cli_addr buffer =
      session_reply (p\<lparr>rx := (rx p)(fd := unread d es)\<rparr>) fd cli_addr (received d) (int n)"
    using pos by (simp add: session_step_def memset_buffer [OF assms(1)] rd)
  then show ?thesis unfolding n_def by (simp only: session_reply_received [OF assms(3)])
qed

lemma session_step_eof:
  assumes "length buffer = 256" and "rx p fd = RdData [] # es"
  shows "session_step p fd cli_addr buffer =
     Some (Break,
           printf (p\<lparr>rx := (rx p)(fd := es)\<rparr>) ''[pid %ld] client disconnected: %s:%u\<newline>''
             [AInt (pid p), AStr (fst cli_addr), AInt (int (snd cli_addr))],
           replicate 256 NUL)"
  by (simp add: session_step_def memset_buffer [OF assms(1)] sys_read_data [OF assms(2)]
      received_def unread_def)

lemma session_step_error:
  assumes "length buffer = 256" and "rx p fd = RdErr e # es"
  shows "session_step p fd cli_addr buffer =
     (if e = EINTR then Some (Continue, p\<lparr>errno := e, rx := (rx p)(fd := es)\<rparr>, replicate 256 NUL)
      else Some (Exit 1, perror (p\<lparr>errno := e, rx := (rx p)(fd := es)\<rparr>) ''ERROR reading from socket'',
                 replicate 256 NUL))"
  using assms(2) by (simp add: session_step_def memset_buffer [OF assms(1)] sys_read_def die_def)

lemma session_step_blocked:
  assumes "length buffer = 256" and "rx p fd = []"
  shows "session_step p fd cli_addr buffer = None"
  using assms(2) by (simp add: session_step_def memset_buffer [OF assms(1)] sys_read_def)

lemma after_recv_fields:
  "tx (after_recv p fd cli_addr d es) = tx p"
  "wire (after_recv p fd cli_addr d es) = wire p"
  "stderr (after_recv p fd cli_addr d es) = stderr p"
  "fds (after_recv p fd cli_addr d es) = fds p"
  "pid (after_recv p fd cli_addr d es) = pid p"
  "rx (after_recv p fd cli_addr d es) = (rx p)(fd := unread d es)"
  by (simp_all add: after_recv_def Let_def printf_def)

lemma after_recv_stdout:
  "stdout (after_recv p fd cli_addr d es) =
     stdout p @ Printf ''[pid %ld] msg from %s:%u -> %s''
                 [AInt (pid p), AStr (fst cli_addr), AInt (int (snd cli_addr)),
                  AStr (cstr (take 255 d))]
       # (if last (take 255 d) \<noteq> LF then [Printf ''\<newline>'' []] else [])"
  by (simp add: after_recv_def Let_def printf_def)

lemma session_loop_step:
  "session_step p fd cli_addr buffer = Some (fl, p', buffer') \<Longrightarrow>
   session_loop p fd cli_addr buffer =
     (if fl = Continue then session_loop p' fd cli_addr buffer'
      else if fl = Break then Some (Return, p') else Some (fl, p'))"
  by (simp add: session_loop.simps [of p fd cli_addr buffer])

lemma session_loop_blocked:
  "session_step p fd cli_addr buffer = None \<Longrightarrow> session_loop p fd cli_addr buffer = None"
  by (simp add: session_loop.simps [of p fd cli_addr buffer])

lemma take_lit: "m \<le> length s \<Longrightarrow> take m (lit s) = take m s"
  by (simp add: lit_def)

lemma send_all_whole:
  assumes "tx p fd = WrRoom k # ws" and "length s \<le> k" and "s \<noteq> []"
  shows "send_all p fd (lit s) (length s) =
     Returns (0, p\<lparr>tx := (tx p)(fd := ws), wire := (wire p)(fd := wire p fd @ s)\<rparr>)"
proof -
  have "0 < length s" using assms(3) by simp
  from send_all_loop_whole [OF this assms(1), of "lit s"] assms(2)
  show ?thesis by (simp add: send_all_def lit_def)
qed

lemma send_all_hard:
  assumes "tx p fd = WrErr e # ws" and "e \<noteq> EINTR" and "0 < len"
  shows "send_all p fd buf len = Returns (- 1, p\<lparr>errno := e, tx := (tx p)(fd := ws)\<rparr>)"
  using send_all_loop_hard [OF assms(3) assms(1) assms(2)] by (simp add: send_all_def)

text \<open>The branch that sends the acknowledgement.\<close>

lemma session_step_ack:
  assumes "length buffer = 256" and "rx p fd = RdData d # es" and "d \<noteq> []"
    and "is_quit_cmd (lit (take 255 d)) = Some False"
  shows "session_step p fd cli_addr buffer =
      (case send_all (after_recv p fd cli_addr d es) fd (lit ''I got your message\<newline>'') 19 of
         Blocks \<Rightarrow> None
       | Killed s q \<Rightarrow> Some (Signalled s, q, received d)
       | Returns (r, p') \<Rightarrow>
           if r < 0 then Some (Exit 1, perror p' ''ERROR writing to socket'', received d)
           else Some (Continue, p', received d))"
proof -
  from assms(4) have "\<not> spec_is_quit (lit (take 255 d))" by (simp add: is_quit_cmd_lit)
  then show ?thesis by (simp only: session_step_data [OF assms(1-3)] if_False)
qed

text \<open>The branch that sends the farewell.\<close>

lemma session_step_bye:
  assumes "length buffer = 256" and "rx p fd = RdData d # es" and "d \<noteq> []"
    and "is_quit_cmd (lit (take 255 d)) = Some True"
  shows "session_step p fd cli_addr buffer =
      (case send_all (after_recv p fd cli_addr d es) fd (lit ''Bye.\<newline>'') 5 of
         Blocks \<Rightarrow> None
       | Killed s q \<Rightarrow> Some (Signalled s, q, received d)
       | Returns (r, p3) \<Rightarrow>
           Some (Break,
                 printf (if r < 0 then perror p3 ''ERROR writing to socket'' else p3)
                   ''[pid %ld] client disconnected (quit/exit): %s:%u\<newline>''
                   [AInt (pid p3), AStr (fst cli_addr), AInt (int (snd cli_addr))],
                 received d))"
proof -
  from assms(4) have "spec_is_quit (lit (take 255 d))" by (simp add: is_quit_cmd_lit)
  then show ?thesis by (simp only: session_step_data [OF assms(1-3)] if_True)
qed

lemma ack_step_sent:
  assumes "length buffer = 256" and "rx p fd = RdData d # es" and "d \<noteq> []"
    and "is_quit_cmd (lit (take 255 d)) = Some False"
    and "session_step p fd cli_addr buffer = Some (fl, p', b')"
  shows "(\<exists>m\<le>19. wire p' fd = wire p fd @ take m ''I got your message\<newline>'')
     \<and> (fl = Continue \<or> fl = Exit 1 \<or> (\<exists>s. fl = Signalled s))"
proof -
  let ?q = "after_recv p fd cli_addr d es"
  let ?ack = "''I got your message\<newline>''"
  have pre: "m \<le> 19 \<Longrightarrow> take m (lit ?ack) = take m ?ack" for m
    by (intro take_lit) simp
  show ?thesis
  proof (cases "send_all ?q fd (lit ?ack) 19")
    case Blocks
    with assms(5) show ?thesis by (simp add: session_step_ack [OF assms(1-4)])
  next
    case (Killed s q)
    with assms(5) have r: "fl = Signalled s" "p' = q"
      by (simp_all add: session_step_ack [OF assms(1-4)])
    from send_all_killed_wire [OF Killed] obtain m where
      m: "m \<le> 19" "wire q fd = wire ?q fd @ take m (lit ?ack)" by blast
    with pre [OF m(1)] have "wire q fd = wire p fd @ take m ?ack" by (simp add: after_recv_fields)
    with r m(1) show ?thesis by blast
  next
    case (Returns a)
    obtain r p3 where a: "a = (r, p3)" by (cases a) auto
    with Returns have sa: "send_all ?q fd (lit ?ack) 19 = Returns (r, p3)" by simp
    from send_all_sound [OF sa] obtain m where
      m: "m \<le> 19" "wire p3 fd = wire ?q fd @ take m (lit ?ack)" by blast
    with pre [OF m(1)] have w: "wire p3 fd = wire p fd @ take m ?ack" by (simp add: after_recv_fields)
    from assms(5) sa have "(fl = Continue \<and> p' = p3) \<or> (fl = Exit 1 \<and> p' = perror p3 ''ERROR writing to socket'')"
      by (auto simp: session_step_ack [OF assms(1-4)] split: if_splits)
    with w m(1) show ?thesis by (auto simp: perror_def)
  qed
qed

lemma ack_step_killed:
  assumes "length buffer = 256" and "rx p fd = RdData d # es" and "d \<noteq> []"
    and "is_quit_cmd (lit (take 255 d)) = Some False"
    and "tx p fd = WrSignal s # ws"
  shows "\<exists>p'. session_loop p fd cli_addr buffer = Some (Signalled s, p')
     \<and> wire p' fd = wire p fd \<and> stderr p' = stderr p"
proof -
  let ?q = "after_recv p fd cli_addr d es"
  let ?p' = "?q\<lparr>tx := (tx ?q)(fd := ws)\<rparr>"
  have t: "tx ?q fd = WrSignal s # ws" using assms(5) by (simp add: after_recv_fields)
  have sa: "send_all ?q fd (lit ''I got your message\<newline>'') 19 = Killed s ?p'"
    by (rule send_all_signal [OF t]) simp
  have st: "session_step p fd cli_addr buffer = Some (Signalled s, ?p', received d)"
    by (simp only: session_step_ack [OF assms(1-4)] sa) simp
  from session_loop_step [OF st] have "session_loop p fd cli_addr buffer = Some (Signalled s, ?p')"
    by simp
  moreover have "wire ?p' fd = wire p fd \<and> stderr ?p' = stderr p"
    by (simp add: after_recv_fields)
  ultimately show ?thesis by blast
qed

lemma ack_step_delivered:
  assumes "length buffer = 256" and "rx p fd = RdData d # es" and "d \<noteq> []"
    and "is_quit_cmd (lit (take 255 d)) = Some False"
    and "tx p fd = WrRoom k # ws" and "19 \<le> k"
  shows "\<exists>p'. session_step p fd cli_addr buffer = Some (Continue, p', received d)
     \<and> wire p' fd = wire p fd @ ''I got your message\<newline>''
     \<and> session_loop p fd cli_addr buffer = session_loop p' fd cli_addr (received d)"
proof -
  let ?q = "after_recv p fd cli_addr d es"
  let ?ack = "''I got your message\<newline>''"
  let ?p' = "?q\<lparr>tx := (tx ?q)(fd := ws), wire := (wire ?q)(fd := wire ?q fd @ ?ack)\<rparr>"
  have t: "tx ?q fd = WrRoom k # ws" using assms(5) by (simp add: after_recv_fields)
  have l: "length ?ack = 19" by simp
  have "send_all ?q fd (lit ?ack) (length ?ack) = Returns (0, ?p')"
    using assms(6) by (intro send_all_whole [OF t]) simp_all
  then have sa: "send_all ?q fd (lit ?ack) 19 = Returns (0, ?p')" unfolding l .
  have st: "session_step p fd cli_addr buffer = Some (Continue, ?p', received d)"
    by (simp only: session_step_ack [OF assms(1-4)] sa) simp
  have "wire ?p' fd = wire p fd @ ?ack" by (simp add: after_recv_fields)
  with st session_loop_step [OF st] show ?thesis by auto
qed

lemma ack_step_failed:
  assumes "length buffer = 256" and "rx p fd = RdData d # es" and "d \<noteq> []"
    and "is_quit_cmd (lit (take 255 d)) = Some False"
    and "tx p fd = WrErr e # ws" and "e \<noteq> EINTR"
  shows "\<exists>p'. session_loop p fd cli_addr buffer = Some (Exit 1, p')
     \<and> wire p' fd = wire p fd
     \<and> stderr p' = stderr p @ [(''ERROR writing to socket'', e)]"
proof -
  let ?q = "after_recv p fd cli_addr d es"
  let ?ack = "''I got your message\<newline>''"
  let ?p3 = "?q\<lparr>errno := e, tx := (tx ?q)(fd := ws)\<rparr>"
  have t: "tx ?q fd = WrErr e # ws" using assms(5) by (simp add: after_recv_fields)
  have sa: "send_all ?q fd (lit ?ack) 19 = Returns (- 1, ?p3)"
    by (rule send_all_hard [OF t assms(6)]) simp
  have st: "session_step p fd cli_addr buffer =
      Some (Exit 1, perror ?p3 ''ERROR writing to socket'', received d)"
    by (simp only: session_step_ack [OF assms(1-4)] sa) simp
  from session_loop_step [OF st]
  have "session_loop p fd cli_addr buffer = Some (Exit 1, perror ?p3 ''ERROR writing to socket'')"
    by simp
  moreover have "wire (perror ?p3 ''ERROR writing to socket'') fd = wire p fd"
    by (simp add: perror_def after_recv_fields)
  moreover have "stderr (perror ?p3 ''ERROR writing to socket'') =
      stderr p @ [(''ERROR writing to socket'', e)]"
    by (simp add: perror_def after_recv_fields)
  ultimately show ?thesis by blast
qed

text \<open>
  C2. An iteration of the session loop that receives a payload \<open>P\<close> of 1 to 255 bytes
  which \<open>is_quit_cmd\<close> does not classify as a termination command passes exactly the
  literal "I got your message\n", with its length 19, to \<open>send_all\<close>. When \<open>send_all\<close>
  fails the process exits with status 1 after reporting the error; when it returns
  without failing the loop goes on to the next receive; and when a \<open>write\<close> in it
  raises a signal the process is terminated by that signal. So the session goes on, or
  the process ends abnormally. Whatever \<open>P\<close> is, the bytes put on the connection are a
  prefix of the literal; they are the whole literal when the connection takes them, and
  a first write that fails with an error other than EINTR ends the process with
  status 1.
\<close>

theorem acknowledgement_reply:
  assumes "length buffer = 256" and "rx p fd = RdData P # es"
    and "1 \<le> length P" and "length P \<le> 255"
    and "is_quit_cmd (lit P) = Some False"
  shows "session_step p fd cli_addr buffer =
      (case send_all (after_recv p fd cli_addr P es) fd (lit ''I got your message\<newline>'') 19 of
         Blocks \<Rightarrow> None
       | Killed s q \<Rightarrow> Some (Signalled s, q, received P)
       | Returns (r, p') \<Rightarrow>
           if r < 0 then Some (Exit 1, perror p' ''ERROR writing to socket'', received P)
           else Some (Continue, p', received P))
   \<and> (\<forall>fl p' b'. session_step p fd cli_addr buffer = Some (fl, p', b') \<longrightarrow>
         (\<exists>m\<le>19. wire p' fd = wire p fd @ take m ''I got your message\<newline>'')
         \<and> (fl = Continue \<or> fl = Exit 1 \<or> (\<exists>s. fl = Signalled s)))
   \<and> (tx p fd = WrRoom k # ws \<and> 19 \<le> k \<longrightarrow>
         (\<exists>p'. session_step p fd cli_addr buffer = Some (Continue, p', received P)
            \<and> wire p' fd = wire p fd @ ''I got your message\<newline>''
            \<and> session_loop p fd cli_addr buffer = session_loop p' fd cli_addr (received P)))
   \<and> (tx p fd = WrErr e # ws \<and> e \<noteq> EINTR \<longrightarrow>
         (\<exists>p'. session_loop p fd cli_addr buffer = Some (Exit 1, p')
            \<and> wire p' fd = wire p fd
            \<and> stderr p' = stderr p @ [(''ERROR writing to socket'', e)]))
   \<and> (tx p fd = WrSignal sg # ws \<longrightarrow>
         (\<exists>p'. session_loop p fd cli_addr buffer = Some (Signalled sg, p')
            \<and> wire p' fd = wire p fd \<and> stderr p' = stderr p))"
proof -
  have ne: "P \<noteq> []" using assms(3) by auto
  have tk: "take 255 P = P" using assms(4) by simp
  have nq: "is_quit_cmd (lit (take 255 P)) = Some False" using assms(5) tk by simp
  note a = assms(1,2) ne nq
  have 1: "session_step p fd cli_addr buffer =
      (case send_all (after_recv p fd cli_addr P es) fd (lit ''I got your message\<newline>'') 19 of
         Blocks \<Rightarrow> None
       | Killed s q \<Rightarrow> Some (Signalled s, q, received P)
       | Returns (r, p') \<Rightarrow>
           if r < 0 then Some (Exit 1, perror p' ''ERROR writing to socket'', received P)
           else Some (Continue, p', received P))"
    by (rule session_step_ack [OF a])
  have 2: "\<forall>fl p' b'. session_step p fd cli_addr buffer = Some (fl, p', b') \<longrightarrow>
         (\<exists>m\<le>19. wire p' fd = wire p fd @ take m ''I got your message\<newline>'')
         \<and> (fl = Continue \<or> fl = Exit 1 \<or> (\<exists>s. fl = Signalled s))"
    using ack_step_sent [OF a] by blast
  have 3: "tx p fd = WrRoom k # ws \<and> 19 \<le> k \<longrightarrow>
         (\<exists>p'. session_step p fd cli_addr buffer = Some (Continue, p', received P)
            \<and> wire p' fd = wire p fd @ ''I got your message\<newline>''
            \<and> session_loop p fd cli_addr buffer = session_loop p' fd cli_addr (received P))"
    using ack_step_delivered [OF a] by blast
  have 4: "tx p fd = WrErr e # ws \<and> e \<noteq> EINTR \<longrightarrow>
         (\<exists>p'. session_loop p fd cli_addr buffer = Some (Exit 1, p')
            \<and> wire p' fd = wire p fd
            \<and> stderr p' = stderr p @ [(''ERROR writing to socket'', e)])"
    using ack_step_failed [OF a] by blast
  have 5: "tx p fd = WrSignal sg # ws \<longrightarrow>
         (\<exists>p'. session_loop p fd cli_addr buffer = Some (Signalled sg, p')
            \<and> wire p' fd = wire p fd \<and> stderr p' = stderr p)"
    using ack_step_killed [OF a] by blast
  from 1 2 3 4 5 show ?thesis by (intro conjI)
qed

lemma not_quit_hello: "is_quit_cmd (lit ''hello\<newline>'') = Some False"
  unfolding is_quit_cmd_lit
  by (simp add: spec_is_quit_def spec_token_def cstr_def lit_def NUL_def
      spec_ws_def spec_fold_def char_of_eq_iff)

lemma quit_line: "is_quit_cmd (lit ''quit\<newline>'') = Some True"
  unfolding is_quit_cmd_lit
  by (simp add: spec_is_quit_def spec_token_def cstr_def lit_def NUL_def
      spec_ws_def spec_fold_def char_of_eq_iff)

theorem acknowledgement_reply_witness:
  "\<exists>p'. session_step (idle\<lparr>rx := (\<lambda>fd. [RdData ''hello\<newline>'']), tx := (\<lambda>fd. [WrRoom 100])\<rparr>)
            4 (''10.0.0.7'', 40000) (replicate 256 (CHR ''s''))
          = Some (Continue, p', received ''hello\<newline>'')
      \<and> wire p' 4 = ''I got your message\<newline>''"
proof -
  let ?p = "idle\<lparr>rx := (\<lambda>fd. [RdData ''hello\<newline>'']), tx := (\<lambda>fd. [WrRoom 100])\<rparr>"
  have a: "length (replicate 256 (CHR ''s'')) = 256" by simp
  have b: "rx ?p 4 = RdData ''hello\<newline>'' # []" by simp
  have c: "1 \<le> length ''hello\<newline>''" and d: "length ''hello\<newline>'' \<le> 255" by simp_all
  have t: "tx ?p 4 = WrRoom 100 # [] \<and> (19::nat) \<le> 100" by simp
  from acknowledgement_reply [OF a b c d not_quit_hello, where k = 100 and ws = "[]"
      and cli_addr = "(''10.0.0.7'', 40000)"] t
  obtain p' where p': "session_step ?p 4 (''10.0.0.7'', 40000) (replicate 256 (CHR ''s''))
      = Some (Continue, p', received ''hello\<newline>'')"
    "wire p' 4 = wire ?p 4 @ ''I got your message\<newline>''"
    by blast
  from p'(2) have "wire p' 4 = ''I got your message\<newline>''" by (simp add: idle_def)
  with p'(1) show ?thesis by blast
qed

text \<open>What the child does once \<open>handle_client_loop\<close> has returned or has exited.\<close>

lemma child_branch_returned:
  "handle_client_loop (sys_close q sockfd) fd cli_addr buffer0 = Some (Return, p') \<Longrightarrow>
   child_branch q sockfd fd cli_addr buffer0 = Some (Exit 0, sys_close p' fd)"
  by (simp add: child_branch_def)

lemma fd_closed: "fd \<notin> fds (sys_close p fd)"
  by (simp add: sys_close_def)

lemma bye_step_loop:
  assumes "length buffer = 256" and "rx p fd = RdData d # es" and "d \<noteq> []"
    and "is_quit_cmd (lit (take 255 d)) = Some True"
  shows "session_loop p fd cli_addr buffer =
      (case send_all (after_recv p fd cli_addr d es) fd (lit ''Bye.\<newline>'') 5 of
         Blocks \<Rightarrow> None
       | Killed s q \<Rightarrow> Some (Signalled s, q)
       | Returns (r, p3) \<Rightarrow>
           Some (Return,
                 printf (if r < 0 then perror p3 ''ERROR writing to socket'' else p3)
                   ''[pid %ld] client disconnected (quit/exit): %s:%u\<newline>''
                   [AInt (pid p3), AStr (fst cli_addr), AInt (int (snd cli_addr))]))"
proof (cases "send_all (after_recv p fd cli_addr d es) fd (lit ''Bye.\<newline>'') 5")
  case Blocks
  then have "session_step p fd cli_addr buffer = None"
    by (simp only: session_step_bye [OF assms]) simp
  from session_loop_blocked [OF this] Blocks show ?thesis by simp
next
  case (Killed s q)
  then have "session_step p fd cli_addr buffer = Some (Signalled s, q, received d)"
    by (simp only: session_step_bye [OF assms]) simp
  from session_loop_step [OF this] Killed show ?thesis by simp
next
  case (Returns a)
  obtain r p3 where a: "a = (r, p3)" by (cases a) auto
  have "session_step p fd cli_addr buffer =
      Some (Break,
            printf (if r < 0 then perror p3 ''ERROR writing to socket'' else p3)
              ''[pid %ld] client disconnected (quit/exit): %s:%u\<newline>''
              [AInt (pid p3), AStr (fst cli_addr), AInt (int (snd cli_addr))],
            received d)"
    by (simp only: session_step_bye [OF assms] Returns a) simp
  from session_loop_step [OF this] Returns a show ?thesis by simp
qed

lemma bye_delivered:
  assumes "length buffer = 256" and "rx p fd = RdData d # es" and "d \<noteq> []"
    and "is_quit_cmd (lit (take 255 d)) = Some True"
    and "tx p fd = WrRoom k # ws" and "5 \<le> k"
  shows "\<exists>p'. session_loop p fd cli_addr buffer = Some (Return, p')
     \<and> wire p' fd = wire p fd @ ''Bye.\<newline>'' \<and> stderr p' = stderr p \<and> fds p' = fds p"
proof -
  let ?q = "after_recv p fd cli_addr d es"
  let ?bye = "''Bye.\<newline>''"
  let ?p3 = "?q\<lparr>tx := (tx ?q)(fd := ws), wire := (wire ?q)(fd := wire ?q fd @ ?bye)\<rparr>"
  have t: "tx ?q fd = WrRoom k # ws" using assms(5) by (simp add: after_recv_fields)
  have l: "length ?bye = 5" by simp
  have "send_all ?q fd (lit ?bye) (length ?bye) = Returns (0, ?p3)"
    using assms(6) by (intro send_all_whole [OF t]) simp_all
  then have sa: "send_all ?q fd (lit ?bye) 5 = Returns (0, ?p3)" unfolding l .
  show ?thesis
    by (simp only: bye_step_loop [OF assms(1-4)] sa) (simp add: printf_def after_recv_fields)
qed

lemma bye_failed:
  assumes "length buffer = 256" and "rx p fd = RdData d # es" and "d \<noteq> []"
    and "is_quit_cmd (lit (take 255 d)) = Some True"
    and "tx p fd = WrErr e # ws" and "e \<noteq> EINTR"
  shows "\<exists>p'. session_loop p fd cli_addr buffer = Some (Return, p')
     \<and> wire p' fd = wire p fd
     \<and> stderr p' = stderr p @ [(''ERROR writing to socket'', e)] \<and> fds p' = fds p"
proof -
  let ?q = "after_recv p fd cli_addr d es"
  let ?p3 = "?q\<lparr>errno := e, tx := (tx ?q)(fd := ws)\<rparr>"
  have t: "tx ?q fd = WrErr e # ws" using assms(5) by (simp add: after_recv_fields)
  have sa: "send_all ?q fd (lit ''Bye.\<newline>'') 5 = Returns (- 1, ?p3)"
    by (rule send_all_hard [OF t assms(6)]) simp
  show ?thesis
    by (simp only: bye_step_loop [OF assms(1-4)] sa)
       (simp add: printf_def perror_def after_recv_fields)
qed

lemma bye_killed:
  assumes "length buffer = 256" and "rx p fd = RdData d # es" and "d \<noteq> []"
    and "is_quit_cmd (lit (take 255 d)) = Some True"
    and "tx p fd = WrSignal s # ws"
  shows "\<exists>p'. session_loop p fd cli_addr buffer = Some (Signalled s, p')
     \<and> wire p' fd = wire p fd \<and> stderr p' = stderr p \<and> fds p' = fds p"
proof -
  let ?q = "after_recv p fd cli_addr d es"
  let ?p' = "?q\<lparr>tx := (tx ?q)(fd := ws)\<rparr>"
  have t: "tx ?q fd = WrSignal s # ws" using assms(5) by (simp add: after_recv_fields)
  have sa: "send_all ?q fd (lit ''Bye.\<newline>'') 5 = Killed s ?p'"
    by (rule send_all_signal [OF t]) simp
  show ?thesis
    by (simp only: bye_step_loop [OF assms(1-4)] sa) (simp add: after_recv_fields)
qed

lemma child_branch_ended:
  "handle_client_loop (sys_close q sockfd) fd cli_addr buffer0 = Some (fl, p') \<Longrightarrow>
   fl \<noteq> Return \<Longrightarrow>
   child_branch q sockfd fd cli_addr buffer0 = Some (fl, p')"
  by (simp add: child_branch_def)

text \<open>
  What holds of the farewell, in every iteration of the session loop that receives
  bytes classified as a termination command: \<open>bye_step_loop\<close>. Exactly the literal
  "Bye.\n", with its length 5, is passed to \<open>send_all\<close>; when \<open>send_all\<close> returns, with
  success or with failure, the loop is left and \<open>handle_client_loop\<close> returns, a failure
  being reported on stderr and nothing more (\<open>bye_delivered\<close>, \<open>bye_failed\<close>), and the
  child then closes the descriptor and exits with status 0 (\<open>child_branch_returned\<close>).
  When a \<open>write\<close> of the farewell raises SIGPIPE, \<open>send_all\<close> does not return: the child
  is terminated there (\<open>bye_killed\<close>).
\<close>

text \<open>
  C3. On a termination command the handler is to send "Bye.\n" and to end the session
  whether or not the send succeeds, a failure being reported and not fatal, after
  which the descriptor is closed and the child exits with status 0. The code does so
  when \<open>write\<close> returns an error (second part below: EPIPE is reported, the
  descriptor closed, the status 0) and when it succeeds (third part). It does not when
  the peer is gone and \<open>write\<close> raises SIGPIPE, which server.c leaves at its default
  action (first part): the client has sent "quit\n", the child is terminated by the
  signal inside \<open>send_all\<close>, nothing is reported on stderr, the descriptor is not closed
  and there is no exit status 0.
\<close>

theorem farewell_write_sigpipe:
  "(\<exists>q. child_branch
           (idle\<lparr>fds := {3, 4}, rx := (\<lambda>fd. [RdData ''quit\<newline>'']),
                  tx := (\<lambda>fd. [WrSignal SIGPIPE])\<rparr>)
           3 4 (''10.0.0.7'', 40000) (replicate 256 (CHR ''s''))
         = Some (Signalled SIGPIPE, q)
       \<and> stderr q = [] \<and> wire q 4 = [] \<and> 4 \<in> fds q)
   \<and> (\<exists>q. child_branch
           (idle\<lparr>fds := {3, 4}, rx := (\<lambda>fd. [RdData ''quit\<newline>'']),
                  tx := (\<lambda>fd. [WrErr 32])\<rparr>)
           3 4 (''10.0.0.7'', 40000) (replicate 256 (CHR ''s''))
         = Some (Exit 0, q)
       \<and> stderr q = [(''ERROR writing to socket'', 32)] \<and> wire q 4 = [] \<and> fds q = {})
   \<and> (\<exists>q. child_branch
           (idle\<lparr>fds := {3, 4}, rx := (\<lambda>fd. [RdData ''quit\<newline>'']),
                  tx := (\<lambda>fd. [WrRoom 100])\<rparr>)
           3 4 (''10.0.0.7'', 40000) (replicate 256 (CHR ''s''))
         = Some (Exit 0, q)
       \<and> stderr q = [] \<and> wire q 4 = ''Bye.\<newline>'' \<and> fds q = {})"
proof -
  let ?cli = "(''10.0.0.7'', 40000) :: string \<times> nat"
  let ?b = "replicate 256 (CHR ''s'')"
  have a: "length ?b = 256" by simp
  have c: "''quit\<newline>'' \<noteq> []" by simp
  have d: "is_quit_cmd (lit (take 255 ''quit\<newline>'')) = Some True" using quit_line by simp
  have run: "\<exists>q. child_branch (idle\<lparr>fds := {3, 4}, rx := (\<lambda>fd. [RdData ''quit\<newline>'']),
                  tx := (\<lambda>fd. [ev])\<rparr>) 3 4 ?cli ?b = Some (fl, q)
        \<and> stderr q = er \<and> wire q 4 = wr \<and> fds q = fs"
    if loop: "\<And>p. rx p 4 = RdData ''quit\<newline>'' # [] \<Longrightarrow> tx p 4 = ev # [] \<Longrightarrow>
          \<exists>p'. session_loop p 4 ?cli ?b = Some (fl', p')
            \<and> wire p' 4 = wire p 4 @ wr \<and> stderr p' = stderr p @ er \<and> fds p' = fds p"
      and fin: "fl' = Return \<and> fl = Exit 0 \<and> fs = {} \<or> fl' \<noteq> Return \<and> fl = fl' \<and> fs = {4}"
    for ev fl fl' er wr fs
  proof -
    let ?q = "idle\<lparr>fds := {3, 4}, rx := (\<lambda>fd. [RdData ''quit\<newline>'']), tx := (\<lambda>fd. [ev])\<rparr>"
    let ?p = "printf (sys_close ?q 3) ''[pid %ld] connected: %s:%u\<newline>''
          [AInt (pid (sys_close ?q 3)), AStr (fst ?cli), AInt (int (snd ?cli))]"
    have r: "rx ?p 4 = RdData ''quit\<newline>'' # []" and t: "tx ?p 4 = ev # []"
      by (simp_all add: printf_def sys_close_def)
    from loop [OF r t] obtain p' where
      p': "session_loop ?p 4 ?cli ?b = Some (fl', p')" "wire p' 4 = wire ?p 4 @ wr"
        "stderr p' = stderr ?p @ er" "fds p' = fds ?p" by blast
    from p'(1) have h: "handle_client_loop (sys_close ?q 3) 4 ?cli ?b = Some (fl', p')"
      by (simp add: handle_client_loop_def)
    have w: "wire p' 4 = wr" and e: "stderr p' = er" and f: "fds p' = {4}"
      using p'(2-4) by (simp_all add: printf_def sys_close_def idle_def)
    from fin show ?thesis
    proof
      assume x: "fl' = Return \<and> fl = Exit 0 \<and> fs = {}"
      with h have "child_branch ?q 3 4 ?cli ?b = Some (Exit 0, sys_close p' 4)"
        by (simp add: child_branch_returned)
      moreover have "stderr (sys_close p' 4) = er" "wire (sys_close p' 4) 4 = wr"
        "fds (sys_close p' 4) = {}"
        using w e f by (simp_all add: sys_close_def)
      ultimately show ?thesis using x by blast
    next
      assume x: "fl' \<noteq> Return \<and> fl = fl' \<and> fs = {4}"
      with h have "child_branch ?q 3 4 ?cli ?b = Some (fl', p')"
        by (simp add: child_branch_ended)
      with w e f x show ?thesis by blast
    qed
  qed
  have 1: "\<exists>q. child_branch (idle\<lparr>fds := {3, 4}, rx := (\<lambda>fd. [RdData ''quit\<newline>'']),
                  tx := (\<lambda>fd. [WrSignal SIGPIPE])\<rparr>) 3 4 ?cli ?b = Some (Signalled SIGPIPE, q)
        \<and> stderr q = [] \<and> wire q 4 = [] \<and> fds q = {4}"
  proof (rule run [where fl' = "Signalled SIGPIPE"])
    fix p :: proc assume "rx p 4 = RdData ''quit\<newline>'' # []" "tx p 4 = WrSignal SIGPIPE # []"
    from bye_killed [OF a this(1) c d this(2), of ?cli]
    show "\<exists>p'. session_loop p 4 ?cli ?b = Some (Signalled SIGPIPE, p')
            \<and> wire p' 4 = wire p 4 @ [] \<and> stderr p' = stderr p @ [] \<and> fds p' = fds p"
      by simp
  qed simp
  have 2: "\<exists>q. child_branch (idle\<lparr>fds := {3, 4}, rx := (\<lambda>fd. [RdData ''quit\<newline>'']),
                  tx := (\<lambda>fd. [WrErr 32])\<rparr>) 3 4 ?cli ?b = Some (Exit 0, q)
        \<and> stderr q = [(''ERROR writing to socket'', 32)] \<and> wire q 4 = [] \<and> fds q = {}"
  proof (rule run [where fl' = Return])
    fix p :: proc assume "rx p 4 = RdData ''quit\<newline>'' # []" "tx p 4 = WrErr 32 # []"
    moreover have "(32::int) \<noteq> EINTR" by (simp add: EINTR_def)
    ultimately show "\<exists>p'. session_loop p 4 ?cli ?b = Some (Return, p')
            \<and> wire p' 4 = wire p 4 @ [] \<and> stderr p' = stderr p @ [(''ERROR writing to socket'', 32)]
            \<and> fds p' = fds p"
      using bye_failed [OF a _ c d, of p 4 "[]" 32 "[]" ?cli] by simp
  qed simp
  have 3: "\<exists>q. child_branch (idle\<lparr>fds := {3, 4}, rx := (\<lambda>fd. [RdData ''quit\<newline>'']),
                  tx := (\<lambda>fd. [WrRoom 100])\<rparr>) 3 4 ?cli ?b = Some (Exit 0, q)
        \<and> stderr q = [] \<and> wire q 4 = ''Bye.\<newline>'' \<and> fds q = {}"
  proof (rule run [where fl' = Return])
    fix p :: proc assume "rx p 4 = RdData ''quit\<newline>'' # []" "tx p 4 = WrRoom 100 # []"
    then show "\<exists>p'. session_loop p 4 ?cli ?b = Some (Return, p')
            \<and> wire p' 4 = wire p 4 @ ''Bye.\<newline>'' \<and> stderr p' = stderr p @ []
            \<and> fds p' = fds p"
      using bye_delivered [OF a _ c d, of p 4 "[]" 100 "[]" ?cli] by simp
  qed simp
  from 1 have k1: "\<exists>q. child_branch (idle\<lparr>fds := {3, 4}, rx := (\<lambda>fd. [RdData ''quit\<newline>'']),
                  tx := (\<lambda>fd. [WrSignal SIGPIPE])\<rparr>) 3 4 ?cli ?b = Some (Signalled SIGPIPE, q)
        \<and> stderr q = [] \<and> wire q 4 = [] \<and> 4 \<in> fds q"
    by auto
  from k1 2 3 show ?thesis by (intro conjI)
qed

lemma eof_step_loop:
  assumes "length buffer = 256" and "rx p fd = RdData [] # es"
  shows "\<exists>p'. session_step p fd cli_addr buffer = Some (Break, p', replicate 256 NUL)
     \<and> session_loop p fd cli_addr buffer = Some (Return, p')
     \<and> wire p' = wire p \<and> tx p' = tx p \<and> stderr p' = stderr p \<and> fds p' = fds p"
proof -
  let ?p' = "printf (p\<lparr>rx := (rx p)(fd := es)\<rparr>) ''[pid %ld] client disconnected: %s:%u\<newline>''
             [AInt (pid p), AStr (fst cli_addr), AInt (int (snd cli_addr))]"
  note st = session_step_eof [OF assms, of cli_addr]
  from session_loop_step [OF st] have "session_loop p fd cli_addr buffer = Some (Return, ?p')"
    by simp
  moreover have "wire ?p' = wire p \<and> tx ?p' = tx p \<and> stderr ?p' = stderr p \<and> fds ?p' = fds p"
    by (simp add: printf_def)
  ultimately show ?thesis using st by blast
qed

text \<open>
  C5. An iteration of the session loop whose receive yields 0 bytes leaves the loop
  without a call of \<open>send_all\<close>: nothing is put on the connection, no \<open>write\<close> is made,
  nothing is reported on stderr, and \<open>handle_client_loop\<close> returns. Whenever
  \<open>handle_client_loop\<close> returns, the child closes the connection's descriptor and
  exits with status 0.
\<close>

theorem peer_close_ends_session:
  assumes "length buffer = 256" and "rx p fd = RdData [] # es"
  shows "(\<exists>p'. session_step p fd cli_addr buffer = Some (Break, p', replicate 256 NUL)
            \<and> session_loop p fd cli_addr buffer = Some (Return, p')
            \<and> wire p' = wire p \<and> tx p' = tx p \<and> stderr p' = stderr p \<and> fds p' = fds p)
   \<and> (handle_client_loop (sys_close q sockfd) fd cli_addr buffer0 = Some (Return, p1) \<longrightarrow>
         child_branch q sockfd fd cli_addr buffer0 = Some (Exit 0, sys_close p1 fd)
         \<and> fd \<notin> fds (sys_close p1 fd))"
proof -
  note 1 = eof_step_loop [OF assms, of cli_addr]
  have 2: "handle_client_loop (sys_close q sockfd) fd cli_addr buffer0 = Some (Return, p1) \<longrightarrow>
         child_branch q sockfd fd cli_addr buffer0 = Some (Exit 0, sys_close p1 fd)
         \<and> fd \<notin> fds (sys_close p1 fd)"
    using child_branch_returned fd_closed by blast
  from 1 2 show ?thesis by (intro conjI)
qed

text \<open>The child with a client that connects and closes: nothing is sent, both
  descriptors are closed, the status is 0.\<close>

theorem peer_close_ends_session_witness:
  "\<exists>p'. child_branch
           (idle\<lparr>fds := {3, 4}, rx := (\<lambda>fd. [RdData []]), tx := (\<lambda>fd. [WrRoom 100])\<rparr>)
           3 4 (''10.0.0.7'', 40000) (replicate 256 (CHR ''s''))
         = Some (Exit 0, p')
      \<and> wire p' 4 = [] \<and> tx p' 4 = [WrRoom 100] \<and> fds p' = {} \<and> stderr p' = []"
proof -
  let ?q = "idle\<lparr>fds := {3, 4}, rx := (\<lambda>fd. [RdData []]), tx := (\<lambda>fd. [WrRoom 100])\<rparr>"
  let ?cli = "(''10.0.0.7'', 40000) :: string \<times> nat"
  let ?p = "printf (sys_close ?q 3) ''[pid %ld] connected: %s:%u\<newline>''
          [AInt (pid (sys_close ?q 3)), AStr (fst ?cli), AInt (int (snd ?cli))]"
  have a: "length (replicate 256 (CHR ''s'')) = 256" by simp
  have b: "rx ?p 4 = RdData [] # []" by (simp add: printf_def sys_close_def)
  note ft = peer_close_ends_session [OF a b, where cli_addr = "?cli"
      and q = "?q" and sockfd = 3 and ?buffer0.0 = "replicate 256 (CHR ''s'')"]
  from ft obtain p1 where p1: "session_loop ?p 4 ?cli (replicate 256 (CHR ''s'')) = Some (Return, p1)"
    "wire p1 = wire ?p" "tx p1 = tx ?p" "stderr p1 = stderr ?p" "fds p1 = fds ?p"
    by blast
  from p1(1) have h: "handle_client_loop (sys_close ?q 3) 4 ?cli (replicate 256 (CHR ''s'')) = Some (Return, p1)"
    by (simp add: handle_client_loop_def)
  with ft have "child_branch ?q 3 4 ?cli (replicate 256 (CHR ''s'')) = Some (Exit 0, sys_close p1 4)"
    by blast
  moreover have "wire (sys_close p1 4) 4 = []" "tx (sys_close p1 4) 4 = [WrRoom 100]"
    "fds (sys_close p1 4) = {}" "stderr (sys_close p1 4) = []"
    using p1(2-5) by (simp_all add: sys_close_def printf_def idle_def)
  ultimately show ?thesis by blast
qed

text \<open>The buffer of the session loop.\<close>

lemma session_step_fresh:
  "length buffer = 256 \<Longrightarrow>
   session_step p fd cli_addr buffer = session_step p fd cli_addr (replicate 256 NUL)"
  by (simp add: session_step_def memset_buffer)

lemma send_all_stdout: "send_all p fd buf len = Returns (r, p') \<Longrightarrow> stdout p' = stdout p"
  by (drule send_all_frame) auto

lemma session_step_outcomes:
  assumes "length buffer = 256" and "session_step p fd cli_addr buffer = Some (fl, p', b')"
  shows "fl \<noteq> Fault \<and> length b' = 256"
proof (cases "rx p fd")
  case Nil
  from session_step_blocked [OF assms(1) this] assms(2) show ?thesis by simp
next
  case (Cons ev es)
  show ?thesis
  proof (cases ev)
    case (RdErr e)
    with Cons have "rx p fd = RdErr e # es" by simp
    from session_step_error [OF assms(1) this, of cli_addr] assms(2) show ?thesis
      by (auto split: if_splits)
  next
    case (RdData d)
    with Cons have r: "rx p fd = RdData d # es" by simp
    show ?thesis
    proof (cases "d = []")
      case True
      with r have "rx p fd = RdData [] # es" by simp
      from session_step_eof [OF assms(1) this, of cli_addr] assms(2) show ?thesis by auto
    next
      case False
      from session_step_data [OF assms(1) r False, of cli_addr] assms(2) show ?thesis
        by (auto simp: length_received split: if_splits outcome.splits)
    qed
  qed
qed

lemma session_loop_no_fault:
  "length buffer = 256 \<Longrightarrow> session_loop p fd cli_addr buffer = Some (fl, p') \<Longrightarrow> fl \<noteq> Fault"
proof (induction p fd cli_addr buffer rule: session_loop.induct)
  case (1 p fd cli_addr buffer)
  from "1.prems"(2) obtain fl1 p1 b1 where st: "session_step p fd cli_addr buffer = Some (fl1, p1, b1)"
    by (auto simp: session_loop.simps [of p fd cli_addr buffer] split: option.splits)
  from session_step_outcomes [OF "1.prems"(1) st] have ok: "fl1 \<noteq> Fault" "length b1 = 256"
    by simp_all
  show ?case
  proof (cases "fl1 = Continue")
    case True
    with st "1.prems"(2) have "session_loop p1 fd cli_addr b1 = Some (fl, p')"
      by (simp add: session_loop_step [OF st])
    from "1.IH" [OF st refl refl True ok(2) this] show ?thesis .
  next
    case False
    with st "1.prems"(2) ok show ?thesis
      by (auto simp: session_loop_step [OF st] split: if_splits)
  qed
qed

lemma sys_read_bounded:
  assumes "sys_read p fd buf count = Some (n, buf', p')" and "count \<le> length buf"
  shows "n \<le> int count \<and> length buf' = length buf"
  using assms(1)
proof (cases rule: sys_read_cases)
  case (err e es)
  then show ?thesis by simp
next
  case (all d es)
  with assms(2) show ?thesis by simp
next
  case (part d es)
  with assms(2) show ?thesis by simp
qed

lemma send_all_killed_stdout: "send_all p fd buf len = Killed s q \<Longrightarrow> stdout q = stdout p"
  by (drule send_all_killed_frame) auto

lemma data_step_result:
  assumes "length buffer = 256" and "rx p fd = RdData d # es" and "d \<noteq> []"
    and "session_step p fd cli_addr buffer = Some (fl, p', b')"
  shows "b' = received d
     \<and> (fl = Break \<longrightarrow> is_quit_cmd (lit (take 255 d)) = Some True)
     \<and> (fl = Continue \<or> fl = Exit 1 \<longrightarrow> is_quit_cmd (lit (take 255 d)) = Some False)
     \<and> stdout p' =
         stdout p @ Printf ''[pid %ld] msg from %s:%u -> %s''
                      [AInt (pid p), AStr (fst cli_addr), AInt (int (snd cli_addr)),
                       AStr (cstr (take 255 d))]
           # (if last (take 255 d) \<noteq> LF then [Printf ''\<newline>'' []] else [])
           @ (if fl = Break
              then [Printf ''[pid %ld] client disconnected (quit/exit): %s:%u\<newline>''
                      [AInt (pid p), AStr (fst cli_addr), AInt (int (snd cli_addr))]]
              else [])"
proof (cases "spec_is_quit (lit (take 255 d))")
  case True
  then have q: "is_quit_cmd (lit (take 255 d)) = Some True" by (simp add: is_quit_cmd_lit)
  let ?q = "after_recv p fd cli_addr d es"
  note st = session_step_bye [OF assms(1-3) q, of cli_addr]
  show ?thesis
  proof (cases "send_all ?q fd (lit ''Bye.\<newline>'') 5")
    case Blocks
    with assms(4) st show ?thesis by simp
  next
    case (Killed s k)
    with assms(4) st have "fl = Signalled s" "b' = received d" "p' = k" by simp_all
    with send_all_killed_stdout [OF Killed] show ?thesis
      by (simp add: after_recv_stdout)
  next
    case (Returns x)
    obtain r p3 where x: "x = (r, p3)" by (cases x) auto
    with Returns have sa: "send_all ?q fd (lit ''Bye.\<newline>'') 5 = Returns (r, p3)" by simp
    from send_all_frame [OF sa] have f: "stdout p3 = stdout ?q" "pid p3 = pid ?q" by auto
    from assms(4) sa st have "fl = Break" "b' = received d"
      "p' = printf (if r < 0 then perror p3 ''ERROR writing to socket'' else p3)
              ''[pid %ld] client disconnected (quit/exit): %s:%u\<newline>''
              [AInt (pid p3), AStr (fst cli_addr), AInt (int (snd cli_addr))]"
      by simp_all
    with f q show ?thesis
      by (simp add: printf_def perror_def after_recv_stdout after_recv_fields)
  qed
next
  case False
  then have q: "is_quit_cmd (lit (take 255 d)) = Some False" by (simp add: is_quit_cmd_lit)
  let ?q = "after_recv p fd cli_addr d es"
  note st = session_step_ack [OF assms(1-3) q, of cli_addr]
  show ?thesis
  proof (cases "send_all ?q fd (lit ''I got your message\<newline>'') 19")
    case Blocks
    with assms(4) st show ?thesis by simp
  next
    case (Killed s k)
    with assms(4) st have "fl = Signalled s" "b' = received d" "p' = k" by simp_all
    with send_all_killed_stdout [OF Killed] show ?thesis
      by (simp add: after_recv_stdout)
  next
    case (Returns x)
    obtain r p3 where x: "x = (r, p3)" by (cases x) auto
    with Returns have sa: "send_all ?q fd (lit ''I got your message\<newline>'') 19 = Returns (r, p3)"
      by simp
    from send_all_frame [OF sa] have f: "stdout p3 = stdout ?q" by auto
    from assms(4) sa st have "fl \<noteq> Break" "b' = received d"
      "p' = p3 \<or> p' = perror p3 ''ERROR writing to socket''"
      by (auto split: if_splits)
    with f q show ?thesis
      by (auto simp: perror_def after_recv_stdout)
  qed
qed

text \<open>The accesses \<open>buffer[n]\<close> and \<open>buffer[n - 1]\<close>.\<close>

lemma session_reply_out_of_range:
  assumes "length b = 256" and "n < 1 \<or> 255 < n"
  shows "\<exists>q b'. session_reply p fd cli_addr b n = Some (Fault, q, b')"
proof (cases "n = 0")
  case True
  have st: "store_at b 0 NUL = Some (b[0 := NUL])" using assms(1) by (simp add: store_at_def)
  have "NUL \<in> set (b[0 := NUL])" using assms(1) by (cases b) simp_all
  then have cs: "c_string (b[0 := NUL]) = Some (cstr (b[0 := NUL]))" by (simp add: c_string_def)
  have ld: "load_at (b[0 := NUL]) (- 1) = None" by (simp add: load_at_def)
  show ?thesis
    unfolding True by (simp add: session_reply_def st cs ld Let_def)
next
  case False
  with assms have "store_at b n NUL = None" by (auto simp: store_at_def)
  then show ?thesis by (simp add: session_reply_def)
qed

lemma session_step_accesses:
  assumes "length buffer = 256"
    and "sys_read p fd (replicate 256 NUL) 255 = Some (n, b1, p1)"
  shows "n \<le> 255 \<and> length b1 = 256
     \<and> (1 \<le> n \<longrightarrow>
           session_step p fd cli_addr buffer = session_reply p1 fd cli_addr b1 n
           \<and> (\<exists>b2. store_at b1 n NUL = Some b2 \<and> length b2 = 256
                  \<and> (\<exists>c. load_at b2 (n - 1) = Some c)))
     \<and> (n < 1 \<longrightarrow>
           (\<exists>fl q. session_step p fd cli_addr buffer = Some (fl, q, b1)
              \<and> (fl = Continue \<or> fl = Exit 1 \<or> fl = Break)))"
proof -
  from sys_read_bounded [OF assms(2)] have bd: "n \<le> 255" "length b1 = 256" by simp_all
  have unf: "session_step p fd cli_addr buffer =
      (if n < 0 then
         (if errno p1 = EINTR then Some (Continue, p1, b1)
          else Some (Exit 1, perror p1 ''ERROR reading from socket'', b1))
       else if n = 0 then
         Some (Break,
               printf p1 ''[pid %ld] client disconnected: %s:%u\<newline>''
                 [AInt (pid p1), AStr (fst cli_addr), AInt (int (snd cli_addr))],
               b1)
       else session_reply p1 fd cli_addr b1 n)"
    by (simp add: session_step_def memset_buffer [OF assms(1)] assms(2) die_def)
  have up: "1 \<le> n \<longrightarrow>
           session_step p fd cli_addr buffer = session_reply p1 fd cli_addr b1 n
           \<and> (\<exists>b2. store_at b1 n NUL = Some b2 \<and> length b2 = 256
                  \<and> (\<exists>c. load_at b2 (n - 1) = Some c))"
  proof
    assume n: "1 \<le> n"
    with bd have "store_at b1 n NUL = Some (b1[nat n := NUL])" "length (b1[nat n := NUL]) = 256"
      "load_at (b1[nat n := NUL]) (n - 1) = Some ((b1[nat n := NUL]) ! nat (n - 1))"
      by (simp_all add: store_at_def load_at_def)
    with n unf show "session_step p fd cli_addr buffer = session_reply p1 fd cli_addr b1 n
           \<and> (\<exists>b2. store_at b1 n NUL = Some b2 \<and> length b2 = 256
                  \<and> (\<exists>c. load_at b2 (n - 1) = Some c))"
      by simp
  qed
  have low: "n < 1 \<longrightarrow>
           (\<exists>fl q. session_step p fd cli_addr buffer = Some (fl, q, b1)
              \<and> (fl = Continue \<or> fl = Exit 1 \<or> fl = Break))"
    using unf by auto
  from bd up low show ?thesis by (intro conjI)
qed

text \<open>
  C9. In every iteration of the session loop, entered with the 256-byte buffer in any
  state: the iteration does what it does on a zeroed buffer (\<open>memset\<close> comes first, so
  no byte of an earlier message has any effect); no access falls outside the buffer,
  below or above, and the buffer keeps its 256 bytes; the whole loop never makes an
  access outside the buffer. The \<open>read\<close> returns \<open>n \<le> 255\<close>; the code after the
  receive, with its store at \<open>buffer[n]\<close> and its load at \<open>buffer[n - 1]\<close>, is run only
  when \<open>n \<ge> 1\<close>, where both accesses are inside the buffer; run with any \<open>n\<close> that is
  not from 1 to 255 it would make an access outside the buffer, which the iteration
  never does. When bytes arrive, the buffer holds them (at most 255), followed by NULs
  only; the string printed is the one they form and the string classified is theirs.
\<close>

theorem session_buffer_safe:
  assumes "length buffer = 256"
  shows "session_step p fd cli_addr buffer = session_step p fd cli_addr (replicate 256 NUL)
   \<and> (session_step p fd cli_addr buffer = Some (fl, p', b') \<longrightarrow> fl \<noteq> Fault \<and> length b' = 256)
   \<and> (session_loop p fd cli_addr buffer = Some (fl, p') \<longrightarrow> fl \<noteq> Fault)
   \<and> (sys_read p fd (replicate 256 NUL) 255 = Some (n, b1, p1) \<longrightarrow>
         n \<le> 255 \<and> length b1 = 256
         \<and> (1 \<le> n \<longrightarrow>
               session_step p fd cli_addr buffer = session_reply p1 fd cli_addr b1 n
               \<and> (\<exists>b2. store_at b1 n NUL = Some b2 \<and> length b2 = 256
                      \<and> (\<exists>c. load_at b2 (n - 1) = Some c)))
         \<and> (n < 1 \<longrightarrow>
               (\<exists>fl q. session_step p fd cli_addr buffer = Some (fl, q, b1)
                  \<and> (fl = Continue \<or> fl = Exit 1 \<or> fl = Break))))
   \<and> (length b = 256 \<and> (m < 1 \<or> 255 < m) \<longrightarrow>
         (\<exists>q b2. session_reply p0 fd cli_addr b m = Some (Fault, q, b2)))
   \<and> (rx p fd = RdData d # es \<and> d \<noteq> [] \<and> session_step p fd cli_addr buffer = Some (fl, p', b') \<longrightarrow>
         b' = take 255 d @ replicate (256 - min (length d) 255) NUL
         \<and> c_string b' = Some (cstr (take 255 d))
         \<and> is_quit_cmd b' = is_quit_cmd (lit (take 255 d))
         \<and> (fl = Break \<longrightarrow> is_quit_cmd (lit (take 255 d)) = Some True)
         \<and> (fl = Continue \<or> fl = Exit 1 \<longrightarrow> is_quit_cmd (lit (take 255 d)) = Some False)
         \<and> stdout p' =
             stdout p @ Printf ''[pid %ld] msg from %s:%u -> %s''
                          [AInt (pid p), AStr (fst cli_addr), AInt (int (snd cli_addr)),
                           AStr (cstr (take 255 d))]
               # (if last (take 255 d) \<noteq> LF then [Printf ''\<newline>'' []] else [])
               @ (if fl = Break
                  then [Printf ''[pid %ld] client disconnected (quit/exit): %s:%u\<newline>''
                          [AInt (pid p), AStr (fst cli_addr), AInt (int (snd cli_addr))]]
                  else []))"
proof -
  note 1 = session_step_fresh [OF assms, of p fd cli_addr]
  have 2: "session_step p fd cli_addr buffer = Some (fl, p', b') \<longrightarrow> fl \<noteq> Fault \<and> length b' = 256"
    using session_step_outcomes [OF assms] by blast
  have 3: "session_loop p fd cli_addr buffer = Some (fl, p') \<longrightarrow> fl \<noteq> Fault"
    using session_loop_no_fault [OF assms] by blast
  have 4: "sys_read p fd (replicate 256 NUL) 255 = Some (n, b1, p1) \<longrightarrow>
         n \<le> 255 \<and> length b1 = 256
         \<and> (1 \<le> n \<longrightarrow>
               session_step p fd cli_addr buffer = session_reply p1 fd cli_addr b1 n
               \<and> (\<exists>b2. store_at b1 n NUL = Some b2 \<and> length b2 = 256
                      \<and> (\<exists>c. load_at b2 (n - 1) = Some c)))
         \<and> (n < 1 \<longrightarrow>
               (\<exists>fl q. session_step p fd cli_addr buffer = Some (fl, q, b1)
                  \<and> (fl = Continue \<or> fl = Exit 1 \<or> fl = Break)))"
    using session_step_accesses [OF assms, of p fd n b1 p1 cli_addr] by blast
  have 5: "length b = 256 \<and> (m < 1 \<or> 255 < m) \<longrightarrow>
         (\<exists>q b2. session_reply p0 fd cli_addr b m = Some (Fault, q, b2))"
    using session_reply_out_of_range [of b m p0 fd cli_addr] by blast
  have 6: "rx p fd = RdData d # es \<and> d \<noteq> [] \<and> session_step p fd cli_addr buffer = Some (fl, p', b') \<longrightarrow>
         b' = take 255 d @ replicate (256 - min (length d) 255) NUL
         \<and> c_string b' = Some (cstr (take 255 d))
         \<and> is_quit_cmd b' = is_quit_cmd (lit (take 255 d))
         \<and> (fl = Break \<longrightarrow> is_quit_cmd (lit (take 255 d)) = Some True)
         \<and> (fl = Continue \<or> fl = Exit 1 \<longrightarrow> is_quit_cmd (lit (take 255 d)) = Some False)
         \<and> stdout p' =
             stdout p @ Printf ''[pid %ld] msg from %s:%u -> %s''
                          [AInt (pid p), AStr (fst cli_addr), AInt (int (snd cli_addr)),
                           AStr (cstr (take 255 d))]
               # (if last (take 255 d) \<noteq> LF then [Printf ''\<newline>'' []] else [])
               @ (if fl = Break
                  then [Printf ''[pid %ld] client disconnected (quit/exit): %s:%u\<newline>''
                          [AInt (pid p), AStr (fst cli_addr), AInt (int (snd cli_addr))]]
                  else [])"
  proof
    assume h: "rx p fd = RdData d # es \<and> d \<noteq> [] \<and> session_step p fd cli_addr buffer = Some (fl, p', b')"
    then have r: "rx p fd = RdData d # es" and ne: "d \<noteq> []"
      and st: "session_step p fd cli_addr buffer = Some (fl, p', b')" by simp_all
    note res = data_step_result [OF assms r ne st]
    from res have b: "b' = received d" by simp
    have cs: "c_string b' = Some (cstr (take 255 d))" unfolding b by (rule c_string_received)
    have cl: "is_quit_cmd b' = is_quit_cmd (lit (take 255 d))"
      unfolding b by (simp add: is_quit_cmd_received is_quit_cmd_lit)
    from res cs cl show "b' = take 255 d @ replicate (256 - min (length d) 255) NUL
         \<and> c_string b' = Some (cstr (take 255 d))
         \<and> is_quit_cmd b' = is_quit_cmd (lit (take 255 d))
         \<and> (fl = Break \<longrightarrow> is_quit_cmd (lit (take 255 d)) = Some True)
         \<and> (fl = Continue \<or> fl = Exit 1 \<longrightarrow> is_quit_cmd (lit (take 255 d)) = Some False)
         \<and> stdout p' =
             stdout p @ Printf ''[pid %ld] msg from %s:%u -> %s''
                          [AInt (pid p), AStr (fst cli_addr), AInt (int (snd cli_addr)),
                           AStr (cstr (take 255 d))]
               # (if last (take 255 d) \<noteq> LF then [Printf ''\<newline>'' []] else [])
               @ (if fl = Break
                  then [Printf ''[pid %ld] client disconnected (quit/exit): %s:%u\<newline>''
                          [AInt (pid p), AStr (fst cli_addr), AInt (int (snd cli_addr))]]
                  else [])"
      unfolding received_def by blast
  qed
  from 1 2 3 4 5 6 show ?thesis by (intro conjI)
qed

lemma not_quit_ex: "is_quit_cmd (lit ''ex'') = Some False"
  unfolding is_quit_cmd_lit
  by (simp add: spec_is_quit_def spec_token_def cstr_def lit_def NUL_def
      spec_ws_def spec_fold_def char_of_eq_iff)

text \<open>The buffer still holds "exit" from the message before; "ex" arrives. At the end of
  input, where \<open>read\<close> returns 0, the code after the receive is not run: run there, it
  would load \<open>buffer[-1]\<close>.\<close>

theorem session_buffer_safe_witness:
  "(\<exists>p'. session_step (idle\<lparr>rx := (\<lambda>fd. [RdData ''ex'']), tx := (\<lambda>fd. [WrRoom 100])\<rparr>)
            4 (''10.0.0.7'', 40000) (''exit'' @ replicate 252 NUL)
          = Some (Continue, p', ''ex'' @ replicate 254 NUL)
      \<and> stdout p' = [Printf ''[pid %ld] msg from %s:%u -> %s''
                        [AInt 100, AStr ''10.0.0.7'', AInt 40000, AStr ''ex''],
                      Printf ''\<newline>'' []])
   \<and> (\<exists>q b2. session_reply (idle\<lparr>rx := (\<lambda>fd. [RdData ''ex'']), tx := (\<lambda>fd. [WrRoom 100])\<rparr>)
            4 (''10.0.0.7'', 40000) (''exit'' @ replicate 252 NUL) 0 = Some (Fault, q, b2))"
proof -
  let ?p = "idle\<lparr>rx := (\<lambda>fd. [RdData ''ex'']), tx := (\<lambda>fd. [WrRoom 100])\<rparr>"
  let ?cli = "(''10.0.0.7'', 40000) :: string \<times> nat"
  let ?b = "''exit'' @ replicate 252 NUL"
  have a: "length ?b = 256" by simp
  have b: "rx ?p 4 = RdData ''ex'' # []" by simp
  have c: "''ex'' \<noteq> []" by simp
  have d: "is_quit_cmd (lit (take 255 ''ex'')) = Some False" using not_quit_ex by simp
  have t: "tx ?p 4 = WrRoom 100 # []" by simp
  from ack_step_delivered [OF a b c d t, of ?cli] obtain p' where
    st: "session_step ?p 4 ?cli ?b = Some (Continue, p', received ''ex'')" by auto
  note s = session_buffer_safe [OF a, where p = "?p" and fd = 4 and cli_addr = "?cli"
      and d = "''ex''" and es = "[]" and fl = Continue and p' = p' and b' = "received ''ex''"
      and b = "?b" and m = 0 and ?p0.0 = "?p"]
  from s b c st have
    r: "received ''ex'' = take 255 ''ex'' @ replicate (256 - min (length ''ex'') 255) NUL"
    and o: "stdout p' =
             stdout ?p @ Printf ''[pid %ld] msg from %s:%u -> %s''
                          [AInt (pid ?p), AStr (fst ?cli), AInt (int (snd ?cli)),
                           AStr (cstr (take 255 ''ex''))]
               # (if last (take 255 ''ex'') \<noteq> LF then [Printf ''\<newline>'' []] else [])
               @ (if Continue = Break
                  then [Printf ''[pid %ld] client disconnected (quit/exit): %s:%u\<newline>''
                          [AInt (pid ?p), AStr (fst ?cli), AInt (int (snd ?cli))]]
                  else [])"
    by blast+
  from s a have f: "\<exists>q b2. session_reply ?p 4 ?cli ?b 0 = Some (Fault, q, b2)"
    by simp
  from r have r': "received ''ex'' = ''ex'' @ replicate 254 NUL" by simp
  from o have o': "stdout p' = [Printf ''[pid %ld] msg from %s:%u -> %s''
                        [AInt 100, AStr ''10.0.0.7'', AInt 40000, AStr ''ex''],
                      Printf ''\<newline>'' []]"
    by (simp add: idle_def cstr_def NUL_def LF_def)
  from st r' o' have g: "\<exists>p'. session_step ?p 4 ?cli ?b = Some (Continue, p', ''ex'' @ replicate 254 NUL)
      \<and> stdout p' = [Printf ''[pid %ld] msg from %s:%u -> %s''
                        [AInt 100, AStr ''10.0.0.7'', AInt 40000, AStr ''ex''],
                      Printf ''\<newline>'' []]"
    by auto
  from g f show ?thesis by (intro conjI)
qed

section \<open>The client driver: proofs\<close>

text \<open>
  The line \<open>fgets\<close> takes from the input, the 256-byte buffer after \<open>memset\<close> and
  \<open>fgets\<close>, and the process after the prompt and \<open>fgets\<close> (lines 102 to 109).
\<close>

definition typed :: "proc \<Rightarrow> string" where
  "typed p = fgets_line (stdin p) 255"

definition line_buffer :: "proc \<Rightarrow> string" where
  "line_buffer p = typed p @ NUL # replicate (255 - length (typed p)) NUL"

definition after_input :: "proc \<Rightarrow> proc" where
  "after_input p = (printf p ''> '' [])\<lparr>stdin := drop (length (typed p)) (stdin p)\<rparr>"

lemma length_typed: "length (typed p) \<le> 254"
  by (simp add: typed_def fgets_line_def)

lemma fgets_typed:
  assumes "stdin p \<noteq> []"
  shows "fgets (printf p ''> '' []) (replicate 256 NUL) 255 = (True, line_buffer p, after_input p)"
proof -
  have "drop (length (typed p) + 1) (replicate 256 NUL) = replicate (255 - length (typed p)) NUL"
    using length_typed [of p] by simp
  with assms show ?thesis
    by (simp add: fgets_def Let_def line_buffer_def after_input_def typed_def printf_def)
qed

lemma length_line_buffer: "length (line_buffer p) = 256"
  using length_typed [of p] by (simp add: line_buffer_def)

lemma NUL_in_line_buffer: "NUL \<in> set (line_buffer p)"
  by (simp add: line_buffer_def)

lemma cstr_line_buffer: "cstr (line_buffer p) = cstr (typed p)"
  unfolding line_buffer_def cstr_def by (rule takeWhile_stop) simp

lemma strlen_cstr: "NUL \<in> set s \<Longrightarrow> strlen s = Some (length (cstr s))"
  by (induction s) (auto simp: cstr_def)

lemma strlen_line_buffer: "strlen (line_buffer p) = Some (length (cstr (typed p)))"
  by (simp add: strlen_cstr NUL_in_line_buffer cstr_line_buffer)

lemma client_is_quit_cmd_spec:
  "NUL \<in> set s \<Longrightarrow> client_is_quit_cmd s = Some (spec_is_quit s)"
  by (simp add: client_is_quit_cmd_def client_is_quit_cmd_on_eq is_quit_cmd_on_spec)

lemma client_is_quit_cmd_line:
  "client_is_quit_cmd (line_buffer p) = Some (spec_is_quit (lit (typed p)))"
proof -
  have "cstr (line_buffer p) = cstr (lit (typed p))"
    by (simp add: cstr_line_buffer cstr_lit)
  then have "spec_is_quit (line_buffer p) = spec_is_quit (lit (typed p))"
    by (rule spec_is_quit_cstr)
  then show ?thesis by (simp add: client_is_quit_cmd_spec NUL_in_line_buffer)
qed

text \<open>What \<open>recv_some\<close> leaves in a zeroed 256-byte buffer.\<close>

lemma recv_some_zeroed_aux:
  "recv_some p fd buf cap = Some (n, r1, p') \<Longrightarrow> buf = replicate 256 NUL \<Longrightarrow> cap = 255 \<Longrightarrow>
   (n = - 1 \<and> r1 = replicate 256 NUL)
   \<or> (\<exists>d. n = int (min (length d) 255) \<and> r1 = received d)"
proof (induction p fd buf cap rule: recv_some.induct)
  case (1 p fd buf cap)
  from "1.prems"(1) obtain n1 b1 p1 where rd: "sys_read p fd buf cap = Some (n1, b1, p1)"
    by (auto simp: recv_some.simps [of p fd buf cap] split: option.splits)
  have unf: "recv_some p fd buf cap =
      (if n1 < 0 \<and> errno p1 = EINTR then recv_some p1 fd b1 cap else Some (n1, b1, p1))"
    using rd by (simp add: recv_some.simps [of p fd buf cap])
  from rd show ?case
  proof (cases rule: sys_read_cases)
    case (err e es)
    show ?thesis
    proof (cases "errno p1 = EINTR")
      case True
      with err unf "1.prems" have run: "recv_some p1 fd b1 cap = Some (n, r1, p')" by simp
      have c: "n1 < 0 \<and> errno p1 = EINTR" using err True by simp
      have b: "b1 = replicate 256 NUL" using err "1.prems"(2) by simp
      from "1.IH" [OF rd refl refl c run b "1.prems"(3)] show ?thesis .
    next
      case False
      with err unf "1.prems" show ?thesis by simp
    qed
  next
    case (all d es)
    with "1.prems"(2,3) have "b1 = received d" "n1 = int (min (length d) 255)"
      by (simp_all add: received_def min_def)
    with all unf "1.prems" have "n = int (min (length d) 255) \<and> r1 = received d" by auto
    then show ?thesis by blast
  next
    case (part d es)
    with "1.prems"(2,3) have "b1 = received d" "n1 = int (min (length d) 255)"
      by (simp_all add: received_def min_def)
    with part unf "1.prems" have "n = int (min (length d) 255) \<and> r1 = received d" by auto
    then show ?thesis by blast
  qed
qed

lemma recv_some_zeroed:
  "recv_some p fd (replicate 256 NUL) 255 = Some (n, r1, p') \<Longrightarrow>
   (n = - 1 \<and> r1 = replicate 256 NUL)
   \<or> (\<exists>d. n = int (min (length d) 255) \<and> r1 = received d)"
  by (rule recv_some_zeroed_aux) simp_all

lemma client_reply_received:
  assumes "d \<noteq> []" and "NUL \<in> set buffer"
  shows "client_reply p buffer (received d) (int (min (length d) 255)) =
     Some (if spec_is_quit buffer then Break else Continue,
           (let p1 = printf p ''%s'' [AStr (cstr (take 255 d))]
            in if last (take 255 d) \<noteq> LF then printf p1 ''\<newline>'' [] else p1),
           buffer, received d)"
proof -
  have pos: "0 < min (length d) 255" using assms(1) by simp
  show ?thesis
    by (simp only: client_reply_def store_at_nat load_at_pred [OF pos] store_received
        c_string_received load_received [OF assms(1)] client_is_quit_cmd_spec [OF assms(2)]
        option.case Let_def)
       simp
qed

declare client_loop.simps [simp del]

lemma client_step_exec:
  assumes "length buffer = 256" and "length reply = 256" and "stdin p \<noteq> []"
  shows "client_step p sockfd buffer reply =
     (case client_send_all (after_input p) sockfd (line_buffer p) (length (cstr (typed p))) of
        Blocks \<Rightarrow> None
      | Killed s q \<Rightarrow> Some (Signalled s, q, line_buffer p, reply)
      | Returns (r, p2) \<Rightarrow>
          if r < 0 then Some (Exit 1, perror p2 ''ERROR writing to socket'', line_buffer p, reply)
          else
            (case recv_some p2 sockfd (replicate 256 NUL) 255 of
               None \<Rightarrow> None
             | Some (n, r1, p3) \<Rightarrow>
                 if n < 0 then
                   Some (Exit 1, perror p3 ''ERROR reading from socket'', line_buffer p, r1)
                 else if n = 0 then
                   Some (Break, printf p3 ''(server closed connection)\<newline>'' [], line_buffer p, r1)
                 else client_reply p3 (line_buffer p) r1 n))"
  by (simp add: client_step_def Let_def memset_buffer [OF assms(1)] memset_buffer [OF assms(2)]
      fgets_typed [OF assms(3)] strlen_line_buffer die_def split: option.splits outcome.splits)

lemma client_step_eof:
  assumes "length buffer = 256" and "stdin p = []"
  shows "client_step p sockfd buffer reply =
     Some (Break, printf p ''> '' [], replicate 256 NUL, reply)"
  using assms(2)
  by (simp add: client_step_def Let_def memset_buffer [OF assms(1)] fgets_def printf_def)

lemma client_loop_step:
  "client_step p sockfd buffer reply = Some (fl, p', b', r') \<Longrightarrow>
   client_loop p sockfd buffer reply =
     (if fl = Continue then client_loop p' sockfd b' r'
      else if fl = Break then Some (Return, p') else Some (fl, p'))"
  by (simp add: client_loop.simps [of p sockfd buffer reply])

lemma client_session_returned:
  "client_loop (printf q ''Connected. Type messages; 'quit' or 'exit' to close.\<newline>'' [])
     sockfd buffer0 reply0 = Some (Return, p1) \<Longrightarrow>
   client_session q sockfd buffer0 reply0 = Some (Exit 0, sys_close p1 sockfd)"
  by (simp add: client_session_def)

lemma client_step_closed:
  assumes "length buffer = 256" and "length reply = 256" and "stdin p \<noteq> []"
    and "client_send_all (after_input p) sockfd (line_buffer p) (length (cstr (typed p))) = Returns (r, p2)"
    and "\<not> r < 0"
    and "recv_some p2 sockfd (replicate 256 NUL) 255 = Some (0, r1, p3)"
  shows "client_step p sockfd buffer reply =
       Some (Break, printf p3 ''(server closed connection)\<newline>'' [], line_buffer p, r1)"
  using assms(4-6) by (simp add: client_step_exec [OF assms(1-3)])

lemma client_step_replied:
  assumes "length buffer = 256" and "length reply = 256" and "stdin p \<noteq> []"
    and "client_send_all (after_input p) sockfd (line_buffer p) (length (cstr (typed p))) = Returns (r, p2)"
    and "\<not> r < 0"
    and "recv_some p2 sockfd (replicate 256 NUL) 255 = Some (n, r1, p3)" and "0 < n"
  shows "\<exists>p'. client_step p sockfd buffer reply =
         Some (if client_is_quit_cmd (line_buffer p) = Some True then Break else Continue,
               p', line_buffer p, r1)
     \<and> stdout p' = stdout p3 @ Printf ''%s'' [AStr (cstr r1)]
                      # (if r1 ! (nat n - 1) \<noteq> LF then [Printf ''\<newline>'' []] else [])
     \<and> stdin p' = stdin p3 \<and> fds p' = fds p3 \<and> wire p' = wire p3"
proof -
  from recv_some_zeroed [OF assms(6)] assms(7) obtain d where
    d: "n = int (min (length d) 255)" "r1 = received d" by auto
  with assms(7) have ne: "d \<noteq> []" by auto
  have st: "client_step p sockfd buffer reply = client_reply p3 (line_buffer p) r1 n"
    using assms(4-7) by (simp add: client_step_exec [OF assms(1-3)])
  let ?p' = "let p1 = printf p3 ''%s'' [AStr (cstr (take 255 d))]
             in if last (take 255 d) \<noteq> LF then printf p1 ''\<newline>'' [] else p1"
  have rp: "client_reply p3 (line_buffer p) r1 n =
      Some (if spec_is_quit (line_buffer p) then Break else Continue, ?p', line_buffer p, r1)"
    unfolding d by (rule client_reply_received [OF ne NUL_in_line_buffer])
  have q: "client_is_quit_cmd (line_buffer p) = Some (spec_is_quit (line_buffer p))"
    by (rule client_is_quit_cmd_spec [OF NUL_in_line_buffer])
  have lst: "r1 ! (nat n - 1) = last (take 255 d)"
  proof -
    from load_received [OF ne] have "load r1 (nat n - 1) = Some (last (take 255 d))"
      by (simp add: d)
    then show ?thesis by (auto simp: load_def split: if_splits)
  qed
  have c: "cstr r1 = cstr (take 255 d)" by (simp add: d cstr_received)
  have "client_step p sockfd buffer reply =
         Some (if client_is_quit_cmd (line_buffer p) = Some True then Break else Continue,
               ?p', line_buffer p, r1)"
    unfolding st rp q by simp
  moreover have "stdout ?p' = stdout p3 @ Printf ''%s'' [AStr (cstr r1)]
                      # (if r1 ! (nat n - 1) \<noteq> LF then [Printf ''\<newline>'' []] else [])"
    unfolding lst c by (simp add: Let_def printf_def)
  moreover have "stdin ?p' = stdin p3 \<and> fds ?p' = fds p3 \<and> wire ?p' = wire p3"
    by (simp add: Let_def printf_def)
  ultimately show ?thesis by blast
qed

text \<open>
  C6. An iteration of the client's loop that has read an input line and sent it. When
  the reply is empty (\<open>recv_some\<close> returns 0) the notice is printed and the loop is
  left, whatever the line was. When a reply has arrived (\<open>n > 0\<close>) it is printed, with
  a newline added when it does not end with one, and then the loop is left if and
  only if \<open>is_quit_cmd\<close> of client.c classifies the input buffer as a termination
  command, which is the specification's classifier applied to the line; the reply does
  not enter this test. Once the loop is left, the client closes the socket and exits
  with status 0.
\<close>

theorem client_exit_rule:
  assumes "length buffer = 256" and "length reply = 256" and "stdin p \<noteq> []"
    and "client_send_all (after_input p) sockfd (line_buffer p) (length (cstr (typed p))) = Returns (r, p2)"
    and "\<not> r < 0"
    and "recv_some p2 sockfd (replicate 256 NUL) 255 = Some (n, r1, p3)"
  shows "(n = 0 \<longrightarrow>
           client_step p sockfd buffer reply =
             Some (Break, printf p3 ''(server closed connection)\<newline>'' [], line_buffer p, r1)
           \<and> client_loop p sockfd buffer reply =
             Some (Return, printf p3 ''(server closed connection)\<newline>'' []))
   \<and> (0 < n \<longrightarrow>
         (\<exists>p'. client_step p sockfd buffer reply =
                 Some (if client_is_quit_cmd (line_buffer p) = Some True then Break else Continue,
                       p', line_buffer p, r1)
            \<and> stdout p' = stdout p3 @ Printf ''%s'' [AStr (cstr r1)]
                             # (if r1 ! (nat n - 1) \<noteq> LF then [Printf ''\<newline>'' []] else [])
            \<and> client_loop p sockfd buffer reply =
                 (if client_is_quit_cmd (line_buffer p) = Some True then Some (Return, p')
                  else client_loop p' sockfd (line_buffer p) r1)))
   \<and> client_is_quit_cmd (line_buffer p) = Some (spec_is_quit (lit (typed p)))
   \<and> (client_loop (printf q ''Connected. Type messages; 'quit' or 'exit' to close.\<newline>'' [])
         sockfd buffer0 reply0 = Some (Return, p1) \<longrightarrow>
         client_session q sockfd buffer0 reply0 = Some (Exit 0, sys_close p1 sockfd)
         \<and> sockfd \<notin> fds (sys_close p1 sockfd))"
proof -
  have 1: "n = 0 \<longrightarrow>
           client_step p sockfd buffer reply =
             Some (Break, printf p3 ''(server closed connection)\<newline>'' [], line_buffer p, r1)
           \<and> client_loop p sockfd buffer reply =
             Some (Return, printf p3 ''(server closed connection)\<newline>'' [])"
  proof
    assume "n = 0"
    with assms(6) have "recv_some p2 sockfd (replicate 256 NUL) 255 = Some (0, r1, p3)" by simp
    note st = client_step_closed [OF assms(1-5) this]
    from st client_loop_step [OF st]
    show "client_step p sockfd buffer reply =
             Some (Break, printf p3 ''(server closed connection)\<newline>'' [], line_buffer p, r1)
           \<and> client_loop p sockfd buffer reply =
             Some (Return, printf p3 ''(server closed connection)\<newline>'' [])"
      by simp
  qed
  have 2: "0 < n \<longrightarrow>
         (\<exists>p'. client_step p sockfd buffer reply =
                 Some (if client_is_quit_cmd (line_buffer p) = Some True then Break else Continue,
                       p', line_buffer p, r1)
            \<and> stdout p' = stdout p3 @ Printf ''%s'' [AStr (cstr r1)]
                             # (if r1 ! (nat n - 1) \<noteq> LF then [Printf ''\<newline>'' []] else [])
            \<and> client_loop p sockfd buffer reply =
                 (if client_is_quit_cmd (line_buffer p) = Some True then Some (Return, p')
                  else client_loop p' sockfd (line_buffer p) r1))"
  proof
    assume "0 < n"
    from client_step_replied [OF assms this] obtain p' where
      st: "client_step p sockfd buffer reply =
         Some (if client_is_quit_cmd (line_buffer p) = Some True then Break else Continue,
               p', line_buffer p, r1)"
      and out: "stdout p' = stdout p3 @ Printf ''%s'' [AStr (cstr r1)]
                      # (if r1 ! (nat n - 1) \<noteq> LF then [Printf ''\<newline>'' []] else [])"
      by blast
    from client_loop_step [OF st]
    have "client_loop p sockfd buffer reply =
                 (if client_is_quit_cmd (line_buffer p) = Some True then Some (Return, p')
                  else client_loop p' sockfd (line_buffer p) r1)"
      by simp
    with st out show "\<exists>p'. client_step p sockfd buffer reply =
                 Some (if client_is_quit_cmd (line_buffer p) = Some True then Break else Continue,
                       p', line_buffer p, r1)
            \<and> stdout p' = stdout p3 @ Printf ''%s'' [AStr (cstr r1)]
                             # (if r1 ! (nat n - 1) \<noteq> LF then [Printf ''\<newline>'' []] else [])
            \<and> client_loop p sockfd buffer reply =
                 (if client_is_quit_cmd (line_buffer p) = Some True then Some (Return, p')
                  else client_loop p' sockfd (line_buffer p) r1)"
      by blast
  qed
  note 3 = client_is_quit_cmd_line [of p]
  have 4: "client_loop (printf q ''Connected. Type messages; 'quit' or 'exit' to close.\<newline>'' [])
         sockfd buffer0 reply0 = Some (Return, p1) \<longrightarrow>
         client_session q sockfd buffer0 reply0 = Some (Exit 0, sys_close p1 sockfd)
         \<and> sockfd \<notin> fds (sys_close p1 sockfd)"
    using client_session_returned fd_closed by blast
  from 1 2 3 4 show ?thesis by (intro conjI)
qed

lemma recv_some_data:
  assumes "rx p fd = RdData d # es"
  shows "recv_some p fd (replicate 256 NUL) 255 =
     Some (int (min (length d) 255), received d, p\<lparr>rx := (rx p)(fd := unread d es)\<rparr>)"
  by (simp add: recv_some.simps [of p fd "replicate 256 NUL" 255] sys_read_data [OF assms])

text \<open>The operator types "quit"; the server's reply is not the farewell: the client
  leaves all the same.\<close>

theorem client_exit_rule_witness:
  "\<exists>p' r1. client_step
              (idle\<lparr>stdin := ''quit\<newline>'', tx := (\<lambda>fd. [WrRoom 100]),
                     rx := (\<lambda>fd. [RdData ''I got your message\<newline>''])\<rparr>)
              5 (replicate 256 (CHR ''s'')) (replicate 256 (CHR ''s''))
            = Some (Break, p', ''quit\<newline>'' @ replicate 251 NUL, r1)
      \<and> stdout p' = [Printf ''> '' [], Printf ''%s'' [AStr ''I got your message\<newline>'']]"
proof -
  let ?p = "idle\<lparr>stdin := ''quit\<newline>'', tx := (\<lambda>fd. [WrRoom 100]),
                   rx := (\<lambda>fd. [RdData ''I got your message\<newline>''])\<rparr>"
  let ?s = "replicate 256 (CHR ''s'')"
  have ty: "typed ?p = ''quit\<newline>''"
    by (simp add: typed_def fgets_line_def LF_def)
  have lb: "line_buffer ?p = ''quit\<newline>'' @ replicate 251 NUL"
    unfolding line_buffer_def ty by (simp add: numeral_eq_Suc)
  have cs: "length (cstr (typed ?p)) = 5"
    unfolding ty by (simp add: cstr_def NUL_def)
  let ?p2 = "(after_input ?p)\<lparr>tx := (tx (after_input ?p))(5 := []),
       wire := (wire (after_input ?p))(5 := wire (after_input ?p) 5 @ take (5 - 0) (drop 0 (line_buffer ?p)))\<rparr>"
  have t: "tx (after_input ?p) 5 = WrRoom 100 # []" by (simp add: after_input_def printf_def)
  have sa: "client_send_all (after_input ?p) 5 (line_buffer ?p) (length (cstr (typed ?p))) = Returns (0, ?p2)"
    unfolding cs client_send_all_eq send_all_def
    by (rule send_all_loop_whole [OF _ t]) simp_all
  have rxp: "rx ?p2 5 = RdData ''I got your message\<newline>'' # []"
    by (simp add: after_input_def printf_def)
  note rs = recv_some_data [OF rxp]
  have a: "length ?s = 256" and nn: "\<not> (0::int) < 0" and ne: "stdin ?p \<noteq> []" by simp_all
  note ft = client_exit_rule [OF a a ne sa nn rs]
  have pos: "0 < int (min (length ''I got your message\<newline>'') 255)" by simp
  have q: "spec_is_quit (lit ''quit\<newline>'')"
    by (simp add: spec_is_quit_def spec_token_def cstr_def lit_def NUL_def
        spec_ws_def spec_fold_def char_of_eq_iff)
  from ft have cl: "client_is_quit_cmd (line_buffer ?p) = Some True"
    unfolding ty using q by simp
  from ft pos obtain p' where
    st: "client_step ?p 5 ?s ?s =
       Some (if client_is_quit_cmd (line_buffer ?p) = Some True then Break else Continue,
             p', line_buffer ?p, received ''I got your message\<newline>'')"
    and out: "stdout p' = stdout (?p2\<lparr>rx := (rx ?p2)(5 := unread ''I got your message\<newline>'' [])\<rparr>)
        @ Printf ''%s'' [AStr (cstr (received ''I got your message\<newline>''))]
        # (if received ''I got your message\<newline>''
               ! (nat (int (min (length ''I got your message\<newline>'') 255)) - 1) \<noteq> LF
           then [Printf ''\<newline>'' []] else [])"
    by blast
  from st cl have st': "client_step ?p 5 ?s ?s =
       Some (Break, p', ''quit\<newline>'' @ replicate 251 NUL, received ''I got your message\<newline>'')"
    by (simp only: lb) simp
  have c: "cstr (received ''I got your message\<newline>'') = ''I got your message\<newline>''"
    unfolding cstr_received by (simp add: cstr_def NUL_def)
  have l: "received ''I got your message\<newline>''
             ! (nat (int (min (length ''I got your message\<newline>'') 255)) - 1) = LF"
    by (simp add: received_def LF_def nth_append)
  have "stdout p' = [Printf ''> '' [], Printf ''%s'' [AStr ''I got your message\<newline>'']]"
    unfolding out c l by (simp add: after_input_def printf_def idle_def)
  with st' show ?thesis by blast
qed

end
